theory Spec2Isabelle
  imports Main "HOL-Library.Word" "HOL-Library.Signed_Division"
begin

section \<open>Common data\<close>

text \<open>
  Go's \<open>int64\<close> is a 64-bit word: \<open>+\<close>, \<open>-\<close> and \<open>*\<close> wrap around, \<open>sint\<close> reads the
  two's complement value. Go's \<open>int\<close> is taken at its 64-bit width.
\<close>

type_synonym int64 = "64 word"

text \<open>
  Go's \<open>/\<close> on signed integers truncates towards zero. The divisor is never zero
  where the program divides (\<open>steps\<close> is at least 1 there).
\<close>

definition quo :: "int64 \<Rightarrow> int64 \<Rightarrow> int64" where
  "quo a b = word_of_int (sint a sdiv sint b)"

subsection \<open>The element and page handles of \<open>element.go\<close>\<close>

text \<open>
  \<open>Element\<close> holds a pointer to its \<open>Page\<close> and \<open>Element.Frame\<close> stores the element in the
  page it creates, so the two types are mutually recursive. Of \<open>Page\<close>, which \<open>page.go\<close>
  declares, only the fields that \<open>element.go\<close> reads or writes are kept. The \<open>ctx\<close> and
  \<open>sleeper\<close> of an element belong to the environment below.
\<close>

datatype Page = Page (FrameID: string) (SessionID: string) (element: "Element option")
    (jsHelperObjectID: string) (windowObjectID: string)
  and Element = Element (page: Page) (ObjectID: string)

text \<open>
  A Go \<open>error\<close> is any value of the interface: the sentinel \<open>io.EOF\<close>, the two context
  errors, an error of the protocol layer, or the \<open>ErrNotInteractable\<close> error that
  \<open>newErr\<close> builds from an element and a message.
\<close>

datatype error = EOF | Canceled | DeadlineExceeded | ProtocolError string
  | ErrNotInteractable Element string

section \<open>\<open>mouse.go\<close>\<close>

record Mouse =
  m_x :: int64
  m_y :: int64
  m_buttons :: "string list"

text \<open>
  The parameter object of one \<open>Input.dispatchMouseEvent\<close> call. \<open>clickCount\<close> and
  \<open>modifiers\<close> are absent from some of the three objects the file builds.
\<close>

record Object =
  ev_type :: string
  ev_x :: int64
  ev_y :: int64
  ev_button :: string
  ev_buttons :: int64
  ev_clickCount :: "int64 option"
  ev_modifiers :: "int64 option"

text \<open>
  One protocol exchange: the method, its parameters and what \<open>Call\<close> returned
  (\<open>None\<close> is Go's \<open>nil\<close> error).
\<close>

type_synonym exchange = "string \<times> Object \<times> error option"

text \<open>
  What \<open>Mouse\<close> reaches through \<open>m.page\<close>: \<open>Call\<close>, whose answer may depend on everything
  exchanged so far, the keyboard's modifiers, and \<open>input.EncodeMouseButton\<close>, a function
  of the package \<open>lib/input\<close>, which is a parameter here. Every method of \<open>Mouse\<close> holds
  the mutex of the controller from start to end, so the calls of one controller are made
  one after the other; a call is modelled as a function from the state and the
  exchanges so far to its result, the new state and the exchanges after it.
\<close>

record mouse_page =
  Call :: "exchange list \<Rightarrow> string \<Rightarrow> Object \<Rightarrow> error option"
  modifiers :: int64
  EncodeMouseButton :: "string list \<Rightarrow> string \<times> int64"

definition page_Call :: "mouse_page \<Rightarrow> exchange list \<Rightarrow> string \<Rightarrow> Object
    \<Rightarrow> error option \<times> exchange list" where
  "page_Call P tr meth obj = (let r = Call P tr meth obj in (r, tr @ [(meth, obj, r)]))"

definition mouseMoved :: "mouse_page \<Rightarrow> int64 \<Rightarrow> int64 \<Rightarrow> string \<Rightarrow> int64 \<Rightarrow> Object" where
  "mouseMoved P toX toY button buttons =
     \<lparr>ev_type = ''mouseMoved'', ev_x = toX, ev_y = toY, ev_button = button,
      ev_buttons = buttons, ev_clickCount = None, ev_modifiers = Some (modifiers P)\<rparr>"

text \<open>The body of the \<open>for\<close> loop of \<open>MoveE\<close>, run for the iterations that remain.\<close>

fun move_loop :: "mouse_page \<Rightarrow> int64 \<Rightarrow> int64 \<Rightarrow> string \<Rightarrow> int64 \<Rightarrow> nat \<Rightarrow> Mouse
    \<Rightarrow> exchange list \<Rightarrow> error option \<times> Mouse \<times> exchange list" where
  "move_loop P stepX stepY button buttons 0 m tr = (None, m, tr)"
| "move_loop P stepX stepY button buttons (Suc k) m tr =
     (let toX = m_x m + stepX;
          toY = m_y m + stepY
      in case page_Call P tr ''Input.dispatchMouseEvent''
                (mouseMoved P toX toY button buttons) of
           (Some err, tr') \<Rightarrow> (Some err, m, tr')
         | (None, tr') \<Rightarrow>
             move_loop P stepX stepY button buttons k (m\<lparr>m_x := toX, m_y := toY\<rparr>) tr')"

definition MoveE :: "mouse_page \<Rightarrow> int64 \<Rightarrow> int64 \<Rightarrow> int64 \<Rightarrow> Mouse \<Rightarrow> exchange list
    \<Rightarrow> error option \<times> Mouse \<times> exchange list" where
  "MoveE P x y steps0 m tr =
     (let steps = (if steps0 <s 1 then 1 else steps0);
          stepX = quo (x - m_x m) steps;
          stepY = quo (y - m_y m) steps;
          (button, buttons) = EncodeMouseButton P (m_buttons m)
      in move_loop P stepX stepY button buttons (nat (sint steps)) m tr)"

definition mousePressed :: "mouse_page \<Rightarrow> Mouse \<Rightarrow> string \<Rightarrow> int64 \<Rightarrow> int64 \<Rightarrow> Object" where
  "mousePressed P m button buttons clicks =
     \<lparr>ev_type = ''mousePressed'', ev_x = m_x m, ev_y = m_y m, ev_button = button,
      ev_buttons = buttons, ev_clickCount = Some clicks, ev_modifiers = Some (modifiers P)\<rparr>"

definition DownE :: "mouse_page \<Rightarrow> string \<Rightarrow> int64 \<Rightarrow> Mouse \<Rightarrow> exchange list
    \<Rightarrow> error option \<times> Mouse \<times> exchange list" where
  "DownE P button clicks m tr =
     (let toButtons = m_buttons m @ [button];
          (_, buttons) = EncodeMouseButton P toButtons
      in case page_Call P tr ''Input.dispatchMouseEvent''
                (mousePressed P m button buttons clicks) of
           (Some err, tr') \<Rightarrow> (Some err, m, tr')
         | (None, tr') \<Rightarrow> (None, m\<lparr>m_buttons := toButtons\<rparr>, tr'))"

text \<open>The release object carries no \<open>modifiers\<close> entry.\<close>

definition mouseReleased :: "Mouse \<Rightarrow> string \<Rightarrow> int64 \<Rightarrow> int64 \<Rightarrow> Object" where
  "mouseReleased m button buttons clicks =
     \<lparr>ev_type = ''mouseReleased'', ev_x = m_x m, ev_y = m_y m, ev_button = button,
      ev_buttons = buttons, ev_clickCount = Some clicks, ev_modifiers = None\<rparr>"

text \<open>The \<open>range\<close> loop of \<open>UpE\<close> keeps, in order, every button other than the one released.\<close>

definition UpE :: "mouse_page \<Rightarrow> string \<Rightarrow> int64 \<Rightarrow> Mouse \<Rightarrow> exchange list
    \<Rightarrow> error option \<times> Mouse \<times> exchange list" where
  "UpE P button clicks m tr =
     (let toButtons = filter (\<lambda>btn. btn \<noteq> button) (m_buttons m);
          (_, buttons) = EncodeMouseButton P toButtons
      in case page_Call P tr ''Input.dispatchMouseEvent''
                (mouseReleased m button buttons clicks) of
           (Some err, tr') \<Rightarrow> (Some err, m, tr')
         | (None, tr') \<Rightarrow> (None, m\<lparr>m_buttons := toButtons\<rparr>, tr'))"

definition defaultMouseButton :: string where
  "defaultMouseButton = ''left''"

definition ClickE :: "mouse_page \<Rightarrow> string \<Rightarrow> Mouse \<Rightarrow> exchange list
    \<Rightarrow> error option \<times> Mouse \<times> exchange list" where
  "ClickE P button0 m tr =
     (let button = (if button0 = '''' then defaultMouseButton else button0)
      in case DownE P button 1 m tr of
           (Some err, m', tr') \<Rightarrow> (Some err, m', tr')
         | (None, m', tr') \<Rightarrow> UpE P button 1 m' tr')"

text \<open>
  The exported wrappers: \<open>Move\<close> passes 0 steps, \<open>Down\<close> and \<open>Up\<close> one click. They hand the
  error to \<open>kit.E\<close>, which panics with it; here the error is the result.
\<close>

definition Move :: "mouse_page \<Rightarrow> int64 \<Rightarrow> int64 \<Rightarrow> Mouse \<Rightarrow> exchange list
    \<Rightarrow> error option \<times> Mouse \<times> exchange list" where
  "Move P x y m tr = MoveE P x y 0 m tr"

definition Down :: "mouse_page \<Rightarrow> string \<Rightarrow> Mouse \<Rightarrow> exchange list
    \<Rightarrow> error option \<times> Mouse \<times> exchange list" where
  "Down P button m tr = DownE P button 1 m tr"

definition Up :: "mouse_page \<Rightarrow> string \<Rightarrow> Mouse \<Rightarrow> exchange list
    \<Rightarrow> error option \<times> Mouse \<times> exchange list" where
  "Up P button m tr = UpE P button 1 m tr"

definition Click :: "mouse_page \<Rightarrow> string \<Rightarrow> Mouse \<Rightarrow> exchange list
    \<Rightarrow> error option \<times> Mouse \<times> exchange list" where
  "Click P button m tr = ClickE P button m tr"

text \<open>
  Two calls one after the other, as in \<open>m.Down("left"); m.Up("left")\<close>: the exported
  wrappers panic on an error (\<open>kit.E\<close>), so the second call runs only when the first
  returned no error.
\<close>

definition seq :: "(Mouse \<Rightarrow> exchange list \<Rightarrow> error option \<times> Mouse \<times> exchange list)
    \<Rightarrow> (Mouse \<Rightarrow> exchange list \<Rightarrow> error option \<times> Mouse \<times> exchange list)
    \<Rightarrow> Mouse \<Rightarrow> exchange list \<Rightarrow> error option \<times> Mouse \<times> exchange list" where
  "seq f g m tr =
     (case f m tr of
        (Some err, m', tr') \<Rightarrow> (Some err, m', tr')
      | (None, m', tr') \<Rightarrow> g m' tr')"

text \<open>
  Pages for running the functions on concrete inputs: one whose calls all succeed, and one
  that fails, with a given error, every call whose parameter object satisfies a given
  test. Both encode the pressed buttons as the first button and the number of buttons.
\<close>

definition encode_count :: "string list \<Rightarrow> string \<times> int64" where
  "encode_count bs = (case bs of [] \<Rightarrow> ''none'' | b # _ \<Rightarrow> b, word_of_nat (length bs))"

definition ok_page :: mouse_page where
  "ok_page = \<lparr>Call = (\<lambda>tr meth obj. None), modifiers = 0, EncodeMouseButton = encode_count\<rparr>"

definition failing_page :: "(Object \<Rightarrow> bool) \<Rightarrow> error \<Rightarrow> mouse_page" where
  "failing_page bad e =
     \<lparr>Call = (\<lambda>tr meth obj. if bad obj then Some e else None),
      modifiers = 0, EncodeMouseButton = encode_count\<rparr>"

definition m0 :: Mouse where
  "m0 = \<lparr>m_x = 0, m_y = 0, m_buttons = []\<rparr>"

section \<open>\<open>element.go\<close>\<close>

subsection \<open>The remote side\<close>

text \<open>
  A script handed to the browser is either source text written in \<open>element.go\<close> or one of
  the in-page helpers of \<open>lib/assets/js\<close>, known here by name only.
\<close>

datatype js = Code string | Helper string

text \<open>Of the node that \<open>DOM.describeNode\<close> returns, \<open>Frame\<close> reads the frame id.\<close>

datatype DOMNode = DOMNode (NodeFrameID: string)

text \<open>
  A Go slice is \<open>nil\<close> or holds elements, possibly none: \<open>len\<close> is 0 for both, and
  \<open>reflect.DeepEqual\<close> tells them apart.
\<close>

datatype 'a slice = NilSlice | Slice "'a list"

fun elems :: "'a slice \<Rightarrow> 'a list" where
  "elems NilSlice = []"
| "elems (Slice xs) = xs"

definition len :: "'a slice \<Rightarrow> nat" where
  "len s = length (elems s)"

fun IsNil :: "'a slice \<Rightarrow> bool" where
  "IsNil NilSlice = True"
| "IsNil (Slice xs) = False"

text \<open>
  Everything \<open>element.go\<close> asks of its collaborators, with the answer received. A quad
  (\<open>proto.DOMQuad\<close>, eight floating-point coordinates) and a remote value
  (\<open>proto.RuntimeRemoteObject\<close>) are kept abstract, as \<open>'q\<close> and \<open>'v\<close>. A script is
  evaluated on a page with a \<open>this\<close> object (empty for a page-level evaluation) and
  arguments. The shape received is the slice \<open>res.Quads\<close>. The last four events are the
  sleeper of \<open>utils.Retry\<close>, the creation of a ticker with its period, one wait of the
  \<open>select\<close> in \<open>WaitStable\<close> on the channel of the ticker of that period and on
  \<open>ctx.Done()\<close> (\<open>None\<close> when the tick arrived, \<open>ctx.Err()\<close> when \<open>ctx.Done()\<close> did), and
  the deferred \<open>t.Stop()\<close>.
\<close>

datatype ('q, 'v) event =
    DOM_getContentQuads Element "error + 'q slice"
  | Runtime_evaluate Page string js "string list" "error + 'v"
  | Page_elementFromPoint Page int64 int64 "error + Element"
  | Runtime_release Page string "error option"
  | Page_hasElement Page string "error + bool"
  | Page_elements Page string "error + Element list"
  | DOM_describeNode Element int64 bool "error + DOMNode"
  | Page_resolveNode Page int64 "error + string"
  | Sleeper "error option"
  | Ticker_new int64
  | Select_tick int64 "error option"
  | Ticker_stop

text \<open>
  The collaborators are parameters: each answers from the events so far and the request.
  \<open>Root\<close> is \<open>Page.Root\<close>; \<open>CenterX\<close> and \<open>CenterY\<close> stand for \<open>int64(q.CenterX())\<close> and
  \<open>int64(q.CenterY())\<close>; \<open>Bool\<close> and \<open>GetInt\<close> for \<open>res.Value.Bool()\<close> and
  \<open>res.Value.Get(key).Int()\<close>; \<open>QuadEqual\<close> for \<open>reflect.DeepEqual\<close> on two quads.
\<close>

record ('q, 'v) remote =
  quads_of :: "('q, 'v) event list \<Rightarrow> Element \<Rightarrow> error + 'q slice"
  eval_of :: "('q, 'v) event list \<Rightarrow> Page \<Rightarrow> string \<Rightarrow> js \<Rightarrow> string list \<Rightarrow> error + 'v"
  hit_of :: "('q, 'v) event list \<Rightarrow> Page \<Rightarrow> int64 \<Rightarrow> int64 \<Rightarrow> error + Element"
  release_of :: "('q, 'v) event list \<Rightarrow> Page \<Rightarrow> string \<Rightarrow> error option"
  has_of :: "('q, 'v) event list \<Rightarrow> Page \<Rightarrow> string \<Rightarrow> error + bool"
  elements_of :: "('q, 'v) event list \<Rightarrow> Page \<Rightarrow> string \<Rightarrow> error + Element list"
  describe_of :: "('q, 'v) event list \<Rightarrow> Element \<Rightarrow> int64 \<Rightarrow> bool \<Rightarrow> error + DOMNode"
  resolve_of :: "('q, 'v) event list \<Rightarrow> Page \<Rightarrow> int64 \<Rightarrow> error + string"
  sleep_of :: "('q, 'v) event list \<Rightarrow> error option"
  select_of :: "('q, 'v) event list \<Rightarrow> int64 \<Rightarrow> error option"
  Root :: "Page \<Rightarrow> Page"
  CenterX :: "'q \<Rightarrow> int64"
  CenterY :: "'q \<Rightarrow> int64"
  Bool :: "'v \<Rightarrow> bool"
  GetInt :: "'v \<Rightarrow> string \<Rightarrow> int64"
  QuadEqual :: "'q \<Rightarrow> 'q \<Rightarrow> bool"

subsection \<open>Shape and interactability\<close>

text \<open>\<open>Shape\<close> returns \<open>res.Quads\<close>, or the error beside a \<open>nil\<close> shape.\<close>

definition Shape :: "('q, 'v) remote \<Rightarrow> ('q, 'v) event list \<Rightarrow> Element
    \<Rightarrow> (error + 'q slice) \<times> ('q, 'v) event list" where
  "Shape R tr el = (let r = quads_of R tr el in (r, tr @ [DOM_getContentQuads el r]))"

definition EvalWithOptions :: "('q, 'v) remote \<Rightarrow> ('q, 'v) event list \<Rightarrow> Element \<Rightarrow> js
    \<Rightarrow> string list \<Rightarrow> (error + 'v) \<times> ('q, 'v) event list" where
  "EvalWithOptions R tr el script args =
     (let r = eval_of R tr (page el) (ObjectID el) script args
      in (r, tr @ [Runtime_evaluate (page el) (ObjectID el) script args r]))"

definition Eval :: "('q, 'v) remote \<Rightarrow> ('q, 'v) event list \<Rightarrow> Element \<Rightarrow> js
    \<Rightarrow> string list \<Rightarrow> (error + 'v) \<times> ('q, 'v) event list" where
  "Eval R tr el script params = EvalWithOptions R tr el script params"

text \<open>\<open>Page.Eval\<close>, as \<open>Interactable\<close> calls it on the root page.\<close>

definition Page_Eval :: "('q, 'v) remote \<Rightarrow> ('q, 'v) event list \<Rightarrow> Page \<Rightarrow> string
    \<Rightarrow> (error + 'v) \<times> ('q, 'v) event list" where
  "Page_Eval R tr p code =
     (let r = eval_of R tr p '''' (Code code) []
      in (r, tr @ [Runtime_evaluate p '''' (Code code) [] r]))"

definition ElementFromPoint :: "('q, 'v) remote \<Rightarrow> ('q, 'v) event list \<Rightarrow> Page \<Rightarrow> int64
    \<Rightarrow> int64 \<Rightarrow> (error + Element) \<times> ('q, 'v) event list" where
  "ElementFromPoint R tr p x y =
     (let r = hit_of R tr p x y in (r, tr @ [Page_elementFromPoint p x y r]))"

definition ContainsElement :: "('q, 'v) remote \<Rightarrow> ('q, 'v) event list \<Rightarrow> Element \<Rightarrow> Element
    \<Rightarrow> (error + bool) \<times> ('q, 'v) event list" where
  "ContainsElement R tr el target =
     (case EvalWithOptions R tr el (Helper ''ContainsElement'') [ObjectID target] of
        (Inl err, tr') \<Rightarrow> (Inl err, tr')
      | (Inr res, tr') \<Rightarrow> (Inr (Bool R res), tr'))"

text \<open>
  \<open>Interactable\<close> has the named results \<open>shape\<close> and \<open>err\<close>, and every \<open>return\<close> is bare: the
  pair returned holds whatever the two hold at that point, so a shape comes back beside
  each error raised after it was fetched, and the \<open>nil\<close> shape beside an error of the fetch.
\<close>

definition Interactable :: "('q, 'v) remote \<Rightarrow> ('q, 'v) event list \<Rightarrow> Element
    \<Rightarrow> ('q slice \<times> error option) \<times> ('q, 'v) event list" where
  "Interactable R tr el =
     (case Shape R tr el of
        (Inl err, tr1) \<Rightarrow> ((NilSlice, Some err), tr1)
      | (Inr shape, tr1) \<Rightarrow>
          if len shape = 0
          then ((shape, Some (ErrNotInteractable el ''element has no visible shape'')), tr1)
          else
            (case Page_Eval R tr1 (Root R (page el))
                    ''{ x: window.scrollX, y: window.scrollY }'' of
               (Inl err, tr2) \<Rightarrow> ((shape, Some err), tr2)
             | (Inr scroll, tr2) \<Rightarrow>
                 (case ElementFromPoint R tr2 (page el)
                         (CenterX R (elems shape ! 0) + GetInt R scroll ''x'')
                         (CenterY R (elems shape ! 0) + GetInt R scroll ''y'') of
                    (Inl err, tr3) \<Rightarrow> ((shape, Some err), tr3)
                  | (Inr elAtPoint, tr3) \<Rightarrow>
                      (case ContainsElement R tr3 el elAtPoint of
                         (Inl err, tr4) \<Rightarrow> ((shape, Some err), tr4)
                       | (Inr yes, tr4) \<Rightarrow>
                           if \<not> yes
                           then ((shape, Some (ErrNotInteractable elAtPoint
                                   ''another element covers current one'')), tr4)
                           else ((shape, None), tr4)))))"

subsection \<open>Release and removal\<close>

definition Release :: "('q, 'v) remote \<Rightarrow> ('q, 'v) event list \<Rightarrow> Element
    \<Rightarrow> error option \<times> ('q, 'v) event list" where
  "Release R tr el =
     (let r = release_of R tr (page el) (ObjectID el)
      in (r, tr @ [Runtime_release (page el) (ObjectID el) r]))"

definition Remove :: "('q, 'v) remote \<Rightarrow> ('q, 'v) event list \<Rightarrow> Element
    \<Rightarrow> error option \<times> ('q, 'v) event list" where
  "Remove R tr el =
     (case Eval R tr el (Code ''this.remove()'') [] of
        (Inl err, tr') \<Rightarrow> (Some err, tr')
      | (Inr _, tr') \<Rightarrow> Release R tr' el)"

subsection \<open>Frames and the search for the owning page\<close>

definition Describe :: "('q, 'v) remote \<Rightarrow> ('q, 'v) event list \<Rightarrow> Element \<Rightarrow> int64 \<Rightarrow> bool
    \<Rightarrow> (error + DOMNode) \<times> ('q, 'v) event list" where
  "Describe R tr el depth pierce =
     (let r = describe_of R tr el depth pierce
      in (r, tr @ [DOM_describeNode el depth pierce r]))"

text \<open>
  \<open>Frame\<close> copies the element's page and overwrites the frame id, the owning element and
  the two cached helper ids.
\<close>

definition Frame :: "('q, 'v) remote \<Rightarrow> ('q, 'v) event list \<Rightarrow> Element
    \<Rightarrow> (error + Page) \<times> ('q, 'v) event list" where
  "Frame R tr el =
     (case Describe R tr el 1 False of
        (Inl err, tr') \<Rightarrow> (Inl err, tr')
      | (Inr node, tr') \<Rightarrow>
          (Inr (Page (NodeFrameID node) (SessionID (page el)) (Some el) '''' ''''), tr'))"

definition Elements :: "('q, 'v) remote \<Rightarrow> ('q, 'v) event list \<Rightarrow> Page \<Rightarrow> string
    \<Rightarrow> (error + Element list) \<times> ('q, 'v) event list" where
  "Elements R tr p selector =
     (let r = elements_of R tr p selector in (r, tr @ [Page_elements p selector r]))"

definition resolveNode :: "('q, 'v) remote \<Rightarrow> ('q, 'v) event list \<Rightarrow> Page \<Rightarrow> int64
    \<Rightarrow> (error + string) \<times> ('q, 'v) event list" where
  "resolveNode R tr p nodeID =
     (let r = resolve_of R tr p nodeID in (r, tr @ [Page_resolveNode p nodeID r]))"

definition hasElement :: "('q, 'v) remote \<Rightarrow> ('q, 'v) event list \<Rightarrow> Page \<Rightarrow> string
    \<Rightarrow> (error + bool) \<times> ('q, 'v) event list" where
  "hasElement R tr p objID =
     (let r = has_of R tr p objID in (r, tr @ [Page_hasElement p objID r]))"

text \<open>
  The closure \<open>walk\<close> of \<open>ensureParentPage\<close> and its \<open>for\<close> loop over the iframes of a page.
  The frame tree is whatever the browser reports, so the recursion carries fuel:
  \<open>None\<close> is a search that has not returned within it. The element \<open>el\<close> that the closure
  captures is threaded through; \<open>Some EOF\<close> is the sentinel \<open>io.EOF\<close> the closure returns
  once it has rebound \<open>el\<close>.
\<close>

fun walk :: "nat \<Rightarrow> ('q, 'v) remote \<Rightarrow> int64 \<Rightarrow> Page \<Rightarrow> Element \<Rightarrow> ('q, 'v) event list
      \<Rightarrow> (error option \<times> Element \<times> ('q, 'v) event list) option"
  and walk_list :: "nat \<Rightarrow> ('q, 'v) remote \<Rightarrow> int64 \<Rightarrow> Element list \<Rightarrow> Element
      \<Rightarrow> ('q, 'v) event list \<Rightarrow> (error option \<times> Element \<times> ('q, 'v) event list) option"
where
  "walk 0 R nodeID p el tr = None"
| "walk (Suc n) R nodeID p el tr =
     (case Elements R tr p ''iframe'' of
        (Inl err, tr1) \<Rightarrow> Some (Some err, el, tr1)
      | (Inr list, tr1) \<Rightarrow> walk_list n R nodeID list el tr1)"
| "walk_list n R nodeID [] el tr = Some (None, el, tr)"
| "walk_list n R nodeID (f # fs) el tr =
     (case Frame R tr f of
        (Inl err, tr1) \<Rightarrow> Some (Some err, el, tr1)
      | (Inr p, tr1) \<Rightarrow>
          (case resolveNode R tr1 p nodeID of
             (Inl err, tr2) \<Rightarrow> Some (Some err, el, tr2)
           | (Inr objID, tr2) \<Rightarrow>
               if objID \<noteq> '''' then Some (Some EOF, Element p objID, tr2)
               else
                 (case walk n R nodeID p el tr2 of
                    None \<Rightarrow> None
                  | Some (Some err, el', tr3) \<Rightarrow> Some (Some err, el', tr3)
                  | Some (None, el', tr3) \<Rightarrow> walk_list n R nodeID fs el' tr3)))"

definition ensureParentPage :: "nat \<Rightarrow> ('q, 'v) remote \<Rightarrow> int64 \<Rightarrow> string \<Rightarrow> Element
    \<Rightarrow> ('q, 'v) event list \<Rightarrow> (error option \<times> Element \<times> ('q, 'v) event list) option" where
  "ensureParentPage fuel R nodeID objID el tr =
     (case hasElement R tr (page el) objID of
        (Inl err, tr1) \<Rightarrow> Some (Some err, el, tr1)
      | (Inr has, tr1) \<Rightarrow>
          if has then Some (None, el, tr1)
          else
            (case walk fuel R nodeID (page el) el tr1 of
               None \<Rightarrow> None
             | Some (err, el', tr2) \<Rightarrow>
                 if err = Some EOF then Some (None, el', tr2) else Some (err, el', tr2)))"


subsection \<open>Waiting\<close>

text \<open>
  Modelled from the spec: \<open>utils.Retry\<close>, which \<open>Wait\<close> calls and whose source, in the
  package \<open>lib/utils\<close>, is missing here. The spec has \<open>Wait\<close> evaluate the predicate
  repeatedly, sleeping by the handle's
  policy in between, until it is true, an evaluation fails (the error is returned at
  once) or the scope is cancelled (that error is returned). So \<open>Retry\<close> runs \<open>fn\<close>,
  returns its error when \<open>fn\<close> says stop, and otherwise sleeps, returning the sleeper's
  error if there is one. It may go on for ever: \<open>None\<close> is a call that has not returned
  within the fuel.
\<close>

fun Retry :: "nat \<Rightarrow> ('q, 'v) remote
    \<Rightarrow> (('q, 'v) event list \<Rightarrow> (bool \<times> error option) \<times> ('q, 'v) event list)
    \<Rightarrow> ('q, 'v) event list \<Rightarrow> (error option \<times> ('q, 'v) event list) option" where
  "Retry 0 R fn tr = None"
| "Retry (Suc n) R fn tr =
     (case fn tr of
        ((stop, err), tr1) \<Rightarrow>
          if stop then Some (err, tr1)
          else
            (let r = sleep_of R tr1; tr2 = tr1 @ [Sleeper r]
             in case r of
                  Some e \<Rightarrow> Some (Some e, tr2)
                | None \<Rightarrow> Retry n R fn tr2))"

definition Wait :: "nat \<Rightarrow> ('q, 'v) remote \<Rightarrow> Element \<Rightarrow> js \<Rightarrow> string list
    \<Rightarrow> ('q, 'v) event list \<Rightarrow> (error option \<times> ('q, 'v) event list) option" where
  "Wait fuel R el script params tr =
     Retry fuel R
       (\<lambda>tr. case Eval R tr el script params of
                (Inl err, tr') \<Rightarrow> ((True, Some err), tr')
              | (Inr res, tr') \<Rightarrow>
                  if Bool R res then ((True, None), tr') else ((False, None), tr'))
       tr"

definition WaitVisible :: "nat \<Rightarrow> ('q, 'v) remote \<Rightarrow> Element \<Rightarrow> ('q, 'v) event list
    \<Rightarrow> (error option \<times> ('q, 'v) event list) option" where
  "WaitVisible fuel R el tr = Wait fuel R el (Helper ''Visible'') [] tr"

text \<open>
  \<open>reflect.DeepEqual\<close> on two shapes, as the package \<open>reflect\<close> compares two slices: they
  differ when one is \<open>nil\<close> and the other is not, they differ when their lengths differ,
  and otherwise they are equal when their elements are, index by index. Two quads are
  compared by \<open>QuadEqual\<close>.
\<close>

definition DeepEqual :: "('q, 'v) remote \<Rightarrow> 'q slice \<Rightarrow> 'q slice \<Rightarrow> bool" where
  "DeepEqual R v1 v2 =
     (if IsNil v1 \<noteq> IsNil v2 then False
      else if len v1 \<noteq> len v2 then False
      else list_all (\<lambda>i. QuadEqual R (elems v1 ! i) (elems v2 ! i)) [0..<len v1])"

text \<open>
  The \<open>for\<close> loop of \<open>WaitStable\<close>: wait on the \<open>select\<close>, sample the shape, compare it with
  the previous sample, and go round again with the new sample. The ticker is known by its
  period.
\<close>

fun stable_loop :: "nat \<Rightarrow> ('q, 'v) remote \<Rightarrow> Element \<Rightarrow> int64 \<Rightarrow> 'q slice
    \<Rightarrow> ('q, 'v) event list \<Rightarrow> (error option \<times> ('q, 'v) event list) option" where
  "stable_loop 0 R el t shape tr = None"
| "stable_loop (Suc n) R el t shape tr =
     (let c = select_of R tr t; tr1 = tr @ [Select_tick t c]
      in case c of
           Some err \<Rightarrow> Some (Some err, tr1)
         | None \<Rightarrow>
             (case Shape R tr1 el of
                (Inl err, tr2) \<Rightarrow> Some (Some err, tr2)
              | (Inr current, tr2) \<Rightarrow>
                  if DeepEqual R shape current then Some (None, tr2)
                  else stable_loop n R el t current tr2))"

text \<open>
  A call of \<open>WaitStable\<close> returns an error or \<open>nil\<close>, or panics: \<open>time.NewTicker\<close> panics
  on an interval that is not positive. The deferred \<open>t.Stop()\<close> runs on every return
  after the ticker exists.
\<close>

datatype outcome = Returned "error option" | Panicked string

definition WaitStable :: "nat \<Rightarrow> ('q, 'v) remote \<Rightarrow> Element \<Rightarrow> int64 \<Rightarrow> ('q, 'v) event list
    \<Rightarrow> (outcome \<times> ('q, 'v) event list) option" where
  "WaitStable fuel R el interval tr =
     (case WaitVisible fuel R el tr of
        None \<Rightarrow> None
      | Some (Some err, tr1) \<Rightarrow> Some (Returned (Some err), tr1)
      | Some (None, tr1) \<Rightarrow>
          (case Shape R tr1 el of
             (Inl err, tr2) \<Rightarrow> Some (Returned (Some err), tr2)
           | (Inr shape, tr2) \<Rightarrow>
               if interval \<le>s 0
               then Some (Panicked ''non-positive interval for NewTicker'', tr2)
               else
                 (case stable_loop fuel R el interval shape (tr2 @ [Ticker_new interval]) of
                    None \<Rightarrow> None
                  | Some (r, tr3) \<Rightarrow> Some (Returned r, tr3 @ [Ticker_stop]))))"

subsection \<open>What the claims say, as predicates on the events\<close>

text \<open>
  The wait for visibility the spec describes, with \<open>tr\<close> exchanged so far: the visibility
  helper is evaluated on the element; a failed evaluation ends the wait with its error;
  an evaluation that answers true ends it with success; after one that answers false
  the sleeper of the handle is run, whose error (the scope was cancelled) ends the wait,
  and after which the helper is evaluated again.
\<close>

inductive waiting :: "('q, 'v) remote \<Rightarrow> Element \<Rightarrow> ('q, 'v) event list
    \<Rightarrow> ('q, 'v) event list \<Rightarrow> error option \<Rightarrow> bool" where
  eval_failed: "eval_of R tr (page el) (ObjectID el) (Helper ''Visible'') [] = Inl e \<Longrightarrow>
     waiting R el tr
       [Runtime_evaluate (page el) (ObjectID el) (Helper ''Visible'') [] (Inl e)] (Some e)"
| visible: "eval_of R tr (page el) (ObjectID el) (Helper ''Visible'') [] = Inr v \<Longrightarrow>
     Bool R v \<Longrightarrow>
     waiting R el tr
       [Runtime_evaluate (page el) (ObjectID el) (Helper ''Visible'') [] (Inr v)] None"
| sleep_failed: "eval_of R tr (page el) (ObjectID el) (Helper ''Visible'') [] = Inr v \<Longrightarrow>
     \<not> Bool R v \<Longrightarrow>
     sleep_of R (tr @ [Runtime_evaluate (page el) (ObjectID el) (Helper ''Visible'') []
                         (Inr v)]) = Some e \<Longrightarrow>
     waiting R el tr
       [Runtime_evaluate (page el) (ObjectID el) (Helper ''Visible'') [] (Inr v),
        Sleeper (Some e)] (Some e)"
| hidden: "eval_of R tr (page el) (ObjectID el) (Helper ''Visible'') [] = Inr v \<Longrightarrow>
     \<not> Bool R v \<Longrightarrow>
     sleep_of R (tr @ [Runtime_evaluate (page el) (ObjectID el) (Helper ''Visible'') []
                         (Inr v)]) = None \<Longrightarrow>
     waiting R el
       (tr @ [Runtime_evaluate (page el) (ObjectID el) (Helper ''Visible'') [] (Inr v),
              Sleeper None]) rest r \<Longrightarrow>
     waiting R el tr
       (Runtime_evaluate (page el) (ObjectID el) (Helper ''Visible'') [] (Inr v)
          # Sleeper None # rest) r"

code_pred waiting .

text \<open>
  The events of evaluations of the visibility helper that gave the values \<open>vs\<close>, each
  followed by a sleep that was not cut short.
\<close>

definition slept_evaluations :: "Element \<Rightarrow> 'v list \<Rightarrow> ('q, 'v) event list" where
  "slept_evaluations el vs =
     concat (map (\<lambda>v. [Runtime_evaluate (page el) (ObjectID el) (Helper ''Visible'') [] (Inr v),
                        Sleeper None]) vs)"

text \<open>
  Two shapes are structurally identical: both are \<open>nil\<close>, or neither is and they hold
  equally many quads, each equal to the quad at the same place in the other.
\<close>

fun identical :: "('q, 'v) remote \<Rightarrow> 'q slice \<Rightarrow> 'q slice \<Rightarrow> bool" where
  "identical R NilSlice NilSlice = True"
| "identical R (Slice xs) (Slice ys) = list_all2 (QuadEqual R) xs ys"
| "identical R NilSlice (Slice ys) = False"
| "identical R (Slice xs) NilSlice = False"

text \<open>
  The sampling rounds the spec describes for \<open>WaitStable\<close>, on a ticker of period \<open>t\<close>,
  after a first sample \<open>s\<close> and with \<open>tr\<close> exchanged so far: every round waits once on the
  \<open>select\<close> of the ticker and the cancellation; a round that finds the scope cancelled
  ends the wait with that error; a round whose sample fails ends it with that error; a
  round whose sample is identical to the previous one ends it with success; a round
  whose sample differs is followed by further rounds, which compare with the new sample.
\<close>

inductive sampling :: "('q, 'v) remote \<Rightarrow> Element \<Rightarrow> int64 \<Rightarrow> 'q slice
    \<Rightarrow> ('q, 'v) event list \<Rightarrow> ('q, 'v) event list \<Rightarrow> error option \<Rightarrow> bool" where
  cancelled: "select_of R tr t = Some e \<Longrightarrow>
     sampling R el t s tr [Select_tick t (Some e)] (Some e)"
| sample_failed: "select_of R tr t = None \<Longrightarrow>
     quads_of R (tr @ [Select_tick t None]) el = Inl e \<Longrightarrow>
     sampling R el t s tr [Select_tick t None, DOM_getContentQuads el (Inl e)] (Some e)"
| settled: "select_of R tr t = None \<Longrightarrow>
     quads_of R (tr @ [Select_tick t None]) el = Inr s' \<Longrightarrow>
     identical R s s' \<Longrightarrow>
     sampling R el t s tr [Select_tick t None, DOM_getContentQuads el (Inr s')] None"
| moving: "select_of R tr t = None \<Longrightarrow>
     quads_of R (tr @ [Select_tick t None]) el = Inr s' \<Longrightarrow>
     \<not> identical R s s' \<Longrightarrow>
     sampling R el t s' (tr @ [Select_tick t None, DOM_getContentQuads el (Inr s')]) rest r \<Longrightarrow>
     sampling R el t s tr (Select_tick t None # DOM_getContentQuads el (Inr s') # rest) r"

code_pred sampling .

text \<open>
  The events of sampling rounds that found the shapes \<open>ss\<close>, one after the other, on a
  ticker of period \<open>t\<close>: before each sample one tick of the ticker, and nothing else.
\<close>

definition ticked_samples :: "Element \<Rightarrow> int64 \<Rightarrow> 'q slice list \<Rightarrow> ('q, 'v) event list" where
  "ticked_samples el t ss =
     concat (map (\<lambda>s. [Select_tick t None, DOM_getContentQuads el (Inr s)]) ss)"

text \<open>The pairs of consecutive samples, the first sample being \<open>s\<close> and the later ones \<open>ss\<close>.\<close>

definition consecutive :: "'a \<Rightarrow> 'a list \<Rightarrow> ('a \<times> 'a) list" where
  "consecutive s ss = zip (s # ss) ss"

text \<open>
  What a search for the owning page comes to: the node was in none of the frames tried,
  or it was resolved in a page to an object reference, or a call failed.
\<close>

datatype search = NotFound | Found Page string | Failed error

text \<open>
  The search the spec describes, for node \<open>nid\<close>, below a page and through a list of iframe
  elements, with \<open>tr\<close> exchanged so far; it makes the events given and comes to the outcome
  given. Below a page: the iframes of the page are queried, and searched in document
  order. Through a list of iframes: the child page of the first is derived from its
  description (to depth 1) and the node is resolved there; a reference that is not empty
  ends the whole search, the node found in that page; otherwise the search goes on below
  the child page, and only when the node is not found there, through the iframes that
  remain. A call that fails ends the whole search with its error.
\<close>

inductive searching :: "('q, 'v) remote \<Rightarrow> int64 \<Rightarrow> Page \<Rightarrow> ('q, 'v) event list
      \<Rightarrow> ('q, 'v) event list \<Rightarrow> search \<Rightarrow> bool"
  and searching_list :: "('q, 'v) remote \<Rightarrow> int64 \<Rightarrow> Element list \<Rightarrow> ('q, 'v) event list
      \<Rightarrow> ('q, 'v) event list \<Rightarrow> search \<Rightarrow> bool"
  for R :: "('q, 'v) remote" and nid :: int64
where
  query_failed: "elements_of R tr p ''iframe'' = Inl e \<Longrightarrow>
     searching R nid p tr [Page_elements p ''iframe'' (Inl e)] (Failed e)"
| query: "elements_of R tr p ''iframe'' = Inr fs \<Longrightarrow>
     searching_list R nid fs (tr @ [Page_elements p ''iframe'' (Inr fs)]) new out \<Longrightarrow>
     searching R nid p tr (Page_elements p ''iframe'' (Inr fs) # new) out"
| exhausted: "searching_list R nid [] tr [] NotFound"
| describe_failed: "describe_of R tr f 1 False = Inl e \<Longrightarrow>
     searching_list R nid (f # fs) tr [DOM_describeNode f 1 False (Inl e)] (Failed e)"
| resolve_failed: "describe_of R tr f 1 False = Inr node \<Longrightarrow>
     p = Page (NodeFrameID node) (SessionID (page f)) (Some f) '''' '''' \<Longrightarrow>
     resolve_of R (tr @ [DOM_describeNode f 1 False (Inr node)]) p nid = Inl e \<Longrightarrow>
     searching_list R nid (f # fs) tr
       [DOM_describeNode f 1 False (Inr node), Page_resolveNode p nid (Inl e)] (Failed e)"
| resolved: "describe_of R tr f 1 False = Inr node \<Longrightarrow>
     p = Page (NodeFrameID node) (SessionID (page f)) (Some f) '''' '''' \<Longrightarrow>
     resolve_of R (tr @ [DOM_describeNode f 1 False (Inr node)]) p nid = Inr obj \<Longrightarrow>
     obj \<noteq> '''' \<Longrightarrow>
     searching_list R nid (f # fs) tr
       [DOM_describeNode f 1 False (Inr node), Page_resolveNode p nid (Inr obj)] (Found p obj)"
| inside: "describe_of R tr f 1 False = Inr node \<Longrightarrow>
     p = Page (NodeFrameID node) (SessionID (page f)) (Some f) '''' '''' \<Longrightarrow>
     resolve_of R (tr @ [DOM_describeNode f 1 False (Inr node)]) p nid = Inr '''' \<Longrightarrow>
     searching R nid p
       (tr @ [DOM_describeNode f 1 False (Inr node), Page_resolveNode p nid (Inr '''')])
       new out \<Longrightarrow>
     out \<noteq> NotFound \<Longrightarrow>
     searching_list R nid (f # fs) tr
       (DOM_describeNode f 1 False (Inr node) # Page_resolveNode p nid (Inr '''') # new) out"
| next_sibling: "describe_of R tr f 1 False = Inr node \<Longrightarrow>
     p = Page (NodeFrameID node) (SessionID (page f)) (Some f) '''' '''' \<Longrightarrow>
     resolve_of R (tr @ [DOM_describeNode f 1 False (Inr node)]) p nid = Inr '''' \<Longrightarrow>
     searching R nid p
       (tr @ [DOM_describeNode f 1 False (Inr node), Page_resolveNode p nid (Inr '''')])
       new NotFound \<Longrightarrow>
     searching_list R nid fs
       (tr @ DOM_describeNode f 1 False (Inr node) # Page_resolveNode p nid (Inr '''') # new)
       rest out \<Longrightarrow>
     searching_list R nid (f # fs) tr
       (DOM_describeNode f 1 False (Inr node) # Page_resolveNode p nid (Inr '''') # new @ rest)
       out"

code_pred searching .

text \<open>The pages in which the search tried to resolve the node, in the order tried.\<close>

fun probes :: "('q, 'v) event list \<Rightarrow> Page list" where
  "probes [] = []"
| "probes (Page_resolveNode p n r # evs) = p # probes evs"
| "probes (_ # evs) = probes evs"

subsection \<open>Frame trees that do not change\<close>

text \<open>
  A browser whose frames stay as they are while the search runs: \<open>kids p\<close> are the iframe
  elements of page \<open>p\<close> in document order, \<open>fid f\<close> is the frame id of the document inside
  iframe \<open>f\<close>, \<open>res p n\<close> is the object reference of node \<open>n\<close> in page \<open>p\<close>, empty when the
  node is not there. No page recognizes a stale reference, and nothing fails.
\<close>

definition static_remote :: "(Page \<Rightarrow> Element list) \<Rightarrow> (Element \<Rightarrow> string)
    \<Rightarrow> (Page \<Rightarrow> int64 \<Rightarrow> string) \<Rightarrow> ('q, 'v) remote" where
  "static_remote kids fid res =
     \<lparr>quads_of = (\<lambda>tr el. Inr (Slice [])),
      eval_of = (\<lambda>tr p this script args. Inl (ProtocolError ''no script'')),
      hit_of = (\<lambda>tr p x y. Inl (ProtocolError ''no element'')),
      release_of = (\<lambda>tr p obj. None),
      has_of = (\<lambda>tr p obj. Inr False),
      elements_of = (\<lambda>tr p sel. Inr (if sel = ''iframe'' then kids p else [])),
      describe_of = (\<lambda>tr el depth pierce. Inr (DOMNode (fid el))),
      resolve_of = (\<lambda>tr p n. Inr (res p n)),
      sleep_of = (\<lambda>tr. None),
      select_of = (\<lambda>tr t. None),
      Root = (\<lambda>p. p), CenterX = (\<lambda>q. 0), CenterY = (\<lambda>q. 0),
      Bool = (\<lambda>v. False), GetInt = (\<lambda>v key. 0), QuadEqual = (\<lambda>a b. True)\<rparr>"

text \<open>The page that \<open>Frame\<close> makes of iframe \<open>f\<close> there.\<close>

definition frame_page :: "(Element \<Rightarrow> string) \<Rightarrow> Element \<Rightarrow> Page" where
  "frame_page fid f = Page (fid f) (SessionID (page f)) (Some f) '''' ''''"

text \<open>
  Document order of the frames below a page, to a depth: each iframe's page, then the
  frames inside it, then the next iframe.
\<close>

fun dfs :: "nat \<Rightarrow> (Page \<Rightarrow> Element list) \<Rightarrow> (Element \<Rightarrow> string) \<Rightarrow> Page \<Rightarrow> Page list" where
  "dfs 0 kids fid p = []"
| "dfs (Suc n) kids fid p =
     concat (map (\<lambda>f. frame_page fid f # dfs n kids fid (frame_page fid f)) (kids p))"

text \<open>The frames below a page nest less than \<open>n\<close> deep.\<close>

fun shallow :: "nat \<Rightarrow> (Page \<Rightarrow> Element list) \<Rightarrow> (Element \<Rightarrow> string) \<Rightarrow> Page \<Rightarrow> bool" where
  "shallow 0 kids fid p = False"
| "shallow (Suc n) kids fid p = list_all (\<lambda>f. shallow n kids fid (frame_page fid f)) (kids p)"

text \<open>A list up to and including its first element that satisfies a test.\<close>

fun upto_first :: "('a \<Rightarrow> bool) \<Rightarrow> 'a list \<Rightarrow> 'a list" where
  "upto_first P [] = []"
| "upto_first P (x # xs) = (if P x then [x] else x # upto_first P xs)"

text \<open>
  A frame tree written down: a frame has a name, the ids of the nodes in its document,
  and the frames of its iframes in document order. In the browser made from it, the
  object id of an iframe element is the name of the frame inside, and a node resolves
  in the frame whose document holds it.
\<close>

datatype frame_tree = FrameNode (frame_name: string) (node_ids: "int64 list")
    (subframes: "frame_tree list")

fun find_frame :: "string \<Rightarrow> frame_tree \<Rightarrow> frame_tree option"
  and find_frames :: "string \<Rightarrow> frame_tree list \<Rightarrow> frame_tree option" where
  "find_frame name (FrameNode n ids fs) =
     (if n = name then Some (FrameNode n ids fs) else find_frames name fs)"
| "find_frames name [] = None"
| "find_frames name (f # fs) =
     (case find_frame name f of Some t \<Rightarrow> Some t | None \<Rightarrow> find_frames name fs)"

definition tree_kids :: "frame_tree \<Rightarrow> Page \<Rightarrow> Element list" where
  "tree_kids T p =
     (case find_frame (FrameID p) T of
        None \<Rightarrow> []
      | Some t \<Rightarrow> map (\<lambda>c. Element p (frame_name c)) (subframes t))"

definition tree_res :: "frame_tree \<Rightarrow> Page \<Rightarrow> int64 \<Rightarrow> string" where
  "tree_res T p n =
     (case find_frame (FrameID p) T of
        None \<Rightarrow> ''''
      | Some t \<Rightarrow> if n \<in> set (node_ids t) then ''node@'' @ FrameID p else '''')"

definition tree_remote :: "frame_tree \<Rightarrow> (unit, unit) remote" where
  "tree_remote T = static_remote (tree_kids T) ObjectID (tree_res T)"

text \<open>
  A main page with two iframes \<open>a\<close> and \<open>b\<close>; \<open>a\<close> holds the iframe \<open>a1\<close>, \<open>b\<close> holds \<open>b1\<close>,
  which holds \<open>t\<close>, three levels down, where node 7 is. The handle \<open>stale\<close> is bound to
  the main page.
\<close>

definition nested3 :: frame_tree where
  "nested3 = FrameNode ''main'' []
     [FrameNode ''a'' [] [FrameNode ''a1'' [] []],
      FrameNode ''b'' [] [FrameNode ''b1'' [] [FrameNode ''t'' [7] []]]]"

definition main_page :: Page where
  "main_page = Page ''main'' ''session'' None '''' ''''"

definition stale :: Element where
  "stale = Element main_page ''old''"

definition deepest_page :: Page where
  "deepest_page =
     frame_page ObjectID (Element (frame_page ObjectID
       (Element (frame_page ObjectID (Element main_page ''b'')) ''b1'')) ''t'')"

text \<open>The names of the frames a search tried, in the order tried.\<close>

definition visited :: "(error option \<times> Element \<times> ('q, 'v) event list) option \<Rightarrow> string list" where
  "visited out = (case out of None \<Rightarrow> [] | Some (r, el, tr) \<Rightarrow> map FrameID (probes tr))"

text \<open>A browser with no frames whose query for the iframes of a page fails with a given error.\<close>

definition broken_remote :: "error \<Rightarrow> (unit, unit) remote" where
  "broken_remote e =
     (static_remote (\<lambda>p. []) ObjectID (\<lambda>p n. ''''))\<lparr>elements_of := (\<lambda>tr p sel. Inl e)\<rparr>"

text \<open>A browser with no frames whose check for a known object fails with a given error.\<close>

definition unknowing_remote :: "error \<Rightarrow> (unit, unit) remote" where
  "unknowing_remote e =
     (static_remote (\<lambda>p. []) ObjectID (\<lambda>p n. ''''))\<lparr>has_of := (\<lambda>tr p obj. Inl e)\<rparr>"

text \<open>
  How the result of the closure \<open>walk\<close> and the handle it leaves agree with an outcome of
  the search: the sentinel \<open>io.EOF\<close> with the handle rebound when the node was found, the
  error of a failed call with the handle as it was, and no error, with the handle as it
  was, otherwise.
\<close>

definition agrees :: "error option \<Rightarrow> Element \<Rightarrow> Element \<Rightarrow> search \<Rightarrow> bool" where
  "agrees r el el' out =
     (case out of
        NotFound \<Rightarrow> r = None \<and> el' = el
      | Found p obj \<Rightarrow> r = Some EOF \<and> el' = Element p obj
      | Failed e \<Rightarrow> r = Some e \<and> el' = el)"

text \<open>
  What a search of some pages, taken in order, leaves: the handle rebound to the first
  page in which the node resolves, or untouched when there is none.
\<close>

definition finds :: "(Page \<Rightarrow> int64 \<Rightarrow> string) \<Rightarrow> int64 \<Rightarrow> Page list \<Rightarrow> Element
    \<Rightarrow> error option \<Rightarrow> Element \<Rightarrow> bool" where
  "finds res nid ps el r el' =
     (case find (\<lambda>q. res q nid \<noteq> '''') ps of
        None \<Rightarrow> r = None \<and> el' = el
      | Some q \<Rightarrow> r = Some EOF \<and> el' = Element q (res q nid))"

text \<open>
  A page for running the functions: a quad is known by its centre, a remote value holds
  a truth value and two numbers, and two quads are equal when their centres are. The
  shape sampled and the answer of the \<open>select\<close> depend on the events so far, every hit
  test finds the same element, the containment helper gives a fixed answer, the
  visibility helper one that depends on the events so far, and any other script yields
  the scroll offset \<open>(10, 20)\<close>.
\<close>

type_synonym demo_event = "(int64 \<times> int64, bool \<times> int64 \<times> int64) event"

definition demo_remote :: "(demo_event list \<Rightarrow> (int64 \<times> int64) slice) \<Rightarrow> Element \<Rightarrow> bool
    \<Rightarrow> (demo_event list \<Rightarrow> bool) \<Rightarrow> (demo_event list \<Rightarrow> error option)
    \<Rightarrow> (int64 \<times> int64, bool \<times> int64 \<times> int64) remote" where
  "demo_remote shape hit inside visible sel =
     \<lparr>quads_of = (\<lambda>tr el. Inr (shape tr)),
      eval_of = (\<lambda>tr p this script args.
         Inr (case script of
                Helper h \<Rightarrow> (if h = ''ContainsElement'' then inside else visible tr, 0, 0)
              | Code c \<Rightarrow> (False, 10, 20))),
      hit_of = (\<lambda>tr p x y. Inr hit),
      release_of = (\<lambda>tr p obj. None),
      has_of = (\<lambda>tr p obj. Inr True),
      elements_of = (\<lambda>tr p sel. Inr []),
      describe_of = (\<lambda>tr el depth pierce. Inr (DOMNode '''')),
      resolve_of = (\<lambda>tr p n. Inr ''''),
      sleep_of = (\<lambda>tr. None),
      select_of = (\<lambda>tr t. sel tr),
      Root = (\<lambda>p. p), CenterX = fst, CenterY = snd, Bool = fst,
      GetInt = (\<lambda>v key. if key = ''x'' then fst (snd v)
                         else if key = ''y'' then snd (snd v) else 0),
      QuadEqual = (\<lambda>a b. a = b)\<rparr>"

definition submit :: Element where
  "submit = Element main_page ''submit''"

definition overlay :: Element where
  "overlay = Element main_page ''overlay''"


section \<open>Properties of \<open>mouse.go\<close>\<close>

subsection \<open>One press, one release\<close>

lemma DownE_eq:
  "DownE P b c m tr = (r, m', tr') \<Longrightarrow>
     r = Call P tr ''Input.dispatchMouseEvent''
           (mousePressed P m b (snd (EncodeMouseButton P (m_buttons m @ [b]))) c) \<and>
     tr' = tr @ [(''Input.dispatchMouseEvent'',
           mousePressed P m b (snd (EncodeMouseButton P (m_buttons m @ [b]))) c, r)] \<and>
     m' = (if r = None then m\<lparr>m_buttons := m_buttons m @ [b]\<rparr> else m)"
  by (auto simp: DownE_def page_Call_def Let_def split: prod.splits option.splits)

lemma UpE_eq:
  "UpE P b c m tr = (r, m', tr') \<Longrightarrow>
     r = Call P tr ''Input.dispatchMouseEvent''
           (mouseReleased m b
              (snd (EncodeMouseButton P (filter (\<lambda>btn. btn \<noteq> b) (m_buttons m)))) c) \<and>
     tr' = tr @ [(''Input.dispatchMouseEvent'',
           mouseReleased m b
              (snd (EncodeMouseButton P (filter (\<lambda>btn. btn \<noteq> b) (m_buttons m)))) c, r)] \<and>
     m' = (if r = None then m\<lparr>m_buttons := filter (\<lambda>btn. btn \<noteq> b) (m_buttons m)\<rparr> else m)"
  by (auto simp: UpE_def page_Call_def Let_def split: prod.splits option.splits)

lemma DownE_ok: "DownE P b c m tr = (None, m', tr') \<Longrightarrow> m_buttons m' = m_buttons m @ [b]"
  by (drule DownE_eq) simp

lemma UpE_ok:
  "UpE P b c m tr = (None, m', tr') \<Longrightarrow>
   m_buttons m' = filter (\<lambda>btn. btn \<noteq> b) (m_buttons m)"
  by (drule UpE_eq) simp


subsection \<open>The loop of \<open>MoveE\<close>\<close>

text \<open>
  Whatever the page answers, the loop has made \<open>k\<close> successful dispatches, the cursor
  is \<open>k\<close> strides from where it started, and either all \<open>n\<close> steps are done or the
  dispatch of step \<open>k + 1\<close> failed with the error returned.
\<close>

lemma move_loop_trace:
  "move_loop P sx sy b bs n m tr = (r, m', tr') \<Longrightarrow>
   \<exists>k\<le>n. m' = m\<lparr>m_x := m_x m + of_nat k * sx, m_y := m_y m + of_nat k * sy\<rparr> \<and>
     tr' = tr @ map (\<lambda>i. (''Input.dispatchMouseEvent'',
                mouseMoved P (m_x m + of_nat (Suc i) * sx) (m_y m + of_nat (Suc i) * sy) b bs,
                if i < k then None else r)) [0..<(if r = None then k else Suc k)] \<and>
     (r = None \<longrightarrow> k = n) \<and> (r \<noteq> None \<longrightarrow> k < n)"
proof (induction n arbitrary: m tr)
  case 0
  then show ?case by auto
next
  case (Suc n)
  let ?ev = "mouseMoved P (m_x m + sx) (m_y m + sy) b bs"
  let ?meth = "''Input.dispatchMouseEvent''"
  show ?case
  proof (cases "Call P tr ?meth ?ev")
    case (Some e)
    with Suc.prems have "r = Some e" "m' = m" "tr' = tr @ [(?meth, ?ev, Some e)]"
      by (auto simp: page_Call_def Let_def)
    then show ?thesis
      by (intro exI[of _ 0]) simp
  next
    case None
    let ?m1 = "m\<lparr>m_x := m_x m + sx, m_y := m_y m + sy\<rparr>"
    from None Suc.prems
    have "move_loop P sx sy b bs n ?m1 (tr @ [(?meth, ?ev, None)]) = (r, m', tr')"
      by (auto simp: page_Call_def Let_def)
    from Suc.IH[OF this] obtain k where k: "k \<le> n"
      "m' = ?m1\<lparr>m_x := m_x ?m1 + of_nat k * sx, m_y := m_y ?m1 + of_nat k * sy\<rparr>"
      "tr' = (tr @ [(?meth, ?ev, None)]) @ map (\<lambda>i. (?meth,
                mouseMoved P (m_x ?m1 + of_nat (Suc i) * sx) (m_y ?m1 + of_nat (Suc i) * sy) b bs,
                if i < k then None else r)) [0..<(if r = None then k else Suc k)]"
      "r = None \<longrightarrow> k = n" "r \<noteq> None \<longrightarrow> k < n"
      by blast
    show ?thesis
    proof (intro exI[of _ "Suc k"] conjI)
      show "Suc k \<le> Suc n" using k(1) by simp
      show "m' = m\<lparr>m_x := m_x m + of_nat (Suc k) * sx, m_y := m_y m + of_nat (Suc k) * sy\<rparr>"
        using k(2) by (simp add: algebra_simps)
      show "r = None \<longrightarrow> Suc k = Suc n" using k(4) by simp
      show "r \<noteq> None \<longrightarrow> Suc k < Suc n" using k(5) by simp
      show "tr' = tr @ map (\<lambda>i. (?meth,
                mouseMoved P (m_x m + of_nat (Suc i) * sx) (m_y m + of_nat (Suc i) * sy) b bs,
                if i < Suc k then None else r)) [0..<(if r = None then Suc k else Suc (Suc k))]"
        unfolding k(3) by (cases r) (simp_all add: map_upt_Suc algebra_simps del: upt_Suc)
    qed
  qed
qed

lemma MoveE_trace:
  assumes "MoveE P x y steps m tr = (r, m', tr')"
    and "n = (if steps <s 1 then 1 else steps)"
    and "sx = quo (x - m_x m) n" and "sy = quo (y - m_y m) n"
  shows "\<exists>k\<le>nat (sint n).
     m' = m\<lparr>m_x := m_x m + of_nat k * sx, m_y := m_y m + of_nat k * sy\<rparr> \<and>
     tr' = tr @ map (\<lambda>i. (''Input.dispatchMouseEvent'',
                mouseMoved P (m_x m + of_nat (Suc i) * sx) (m_y m + of_nat (Suc i) * sy)
                  (fst (EncodeMouseButton P (m_buttons m)))
                  (snd (EncodeMouseButton P (m_buttons m))),
                if i < k then None else r)) [0..<(if r = None then k else Suc k)] \<and>
     (r = None \<longrightarrow> k = nat (sint n)) \<and> (r \<noteq> None \<longrightarrow> k < nat (sint n))"
proof -
  have "MoveE P x y steps m tr = move_loop P sx sy (fst (EncodeMouseButton P (m_buttons m)))
      (snd (EncodeMouseButton P (m_buttons m))) (nat (sint n)) m tr"
    by (simp only: MoveE_def Let_def assms(2-4) case_prod_beta)
  with assms(1) have "move_loop P sx sy (fst (EncodeMouseButton P (m_buttons m)))
      (snd (EncodeMouseButton P (m_buttons m))) (nat (sint n)) m tr = (r, m', tr')"
    by simp
  from move_loop_trace[OF this] show ?thesis .
qed

subsection \<open>Stride arithmetic on 64-bit words\<close>

lemma norm_steps_pos: "0 < sint (if steps <s 1 then 1 else (steps :: int64))"
  by (simp add: word_sless_alt)

lemma norm_steps_idem:
  "(if (if steps <s 1 then 1 else steps) <s 1 then 1 else (if steps <s 1 then 1 else steps))
    = (if steps <s 1 then 1 else (steps :: int64))"
  by (simp add: word_sless_alt)

lemma MoveE_norm_steps:
  "MoveE P x y steps m tr = MoveE P x y (if steps <s 1 then 1 else steps) m tr"
  unfolding MoveE_def norm_steps_idem ..

lemma of_nat_nat_sint: "0 \<le> sint (w :: int64) \<Longrightarrow> (of_nat (nat (sint w)) :: int64) = w"
  by (simp add: word_of_nat_eq_iff)

lemma times_quo: "n * quo d n = d - word_of_int (sint d smod sint n)"
proof -
  have "n * quo d n = word_of_int (sint n * (sint d sdiv sint n))"
    by (simp add: quo_def)
  also have "sint n * (sint d sdiv sint n) = sint d - sint d smod sint n"
    by (simp add: minus_smod_eq_mult_sdiv)
  finally show ?thesis by simp
qed

lemma smod_abs_less: "0 < (n::int) \<Longrightarrow> \<bar>a smod n\<bar> < n"
  using smod_int_range[of n a] by auto

lemma sint_smod:
  assumes "0 < sint (n :: int64)"
  shows "sint (word_of_int (a smod sint n) :: int64) = a smod sint n"
proof -
  have "\<bar>a smod sint n\<bar> < sint n" using assms by (rule smod_abs_less)
  moreover have "sint n < 2 ^ 63" using sint_lt[of n] by simp
  ultimately have "- (2 ^ 63) \<le> a smod sint n" "a smod sint n < 2 ^ 63" by linarith+
  then show ?thesis
    by (simp add: sint_sbintrunc' signed_take_bit_int_eq_self)
qed

text \<open>
  One axis: the cursor \<open>c'\<close> reached from \<open>c\<close> after \<open>n\<close> strides towards \<open>t\<close> misses \<open>t\<close>
  by the remainder of the truncating division, all in wrapping arithmetic.
\<close>

lemma stride_target:
  assumes "0 < sint (n :: int64)" and "c' = c + n * quo (t - c) n"
  shows "t - c' = word_of_int (sint (t - c) smod sint n)"
    and "sint (t - c') = sint (t - c) smod sint n"
    and "\<bar>sint (t - c')\<bar> < sint n"
    and "sint n dvd sint (t - c) \<Longrightarrow> c' = t"
proof -
  show 1: "t - c' = word_of_int (sint (t - c) smod sint n)"
    using assms(2) by (simp add: times_quo)
  show 2: "sint (t - c') = sint (t - c) smod sint n"
    unfolding 1 using assms(1) by (rule sint_smod)
  show "\<bar>sint (t - c')\<bar> < sint n"
    unfolding 2 using assms(1) by (rule smod_abs_less)
  assume "sint n dvd sint (t - c)"
  then have "sint (t - c) smod sint n = 0"
    by (auto simp: signed_modulo_int_def)
  with 1 show "c' = t" by simp
qed

lemma sint_diff_exact:
  assumes "- (2 ^ 63) \<le> sint (a :: int64) - sint b" and "sint a - sint (b :: int64) < 2 ^ 63"
  shows "sint (a - b) = sint a - sint b"
  using assms by (simp add: sint_word_diff signed_take_bit_int_eq_self)

text \<open>When the difference of target and cursor fits 64 bits, so does everything after it.\<close>

lemma stride_target_exact:
  assumes n: "0 < sint (n :: int64)" and c': "c' = c + n * quo (t - c) n"
    and lo: "- (2 ^ 63) \<le> sint t - sint c" and hi: "sint t - sint c < 2 ^ 63"
  shows "sint t - sint c' = (sint t - sint c) smod sint n"
proof -
  let ?d = "sint t - sint c"
  let ?r = "?d smod sint n"
  have d: "sint (t - c) = ?d" using lo hi by (rule sint_diff_exact)
  have r: "t - c' = word_of_int ?r" using stride_target(1)[OF n c'] d by simp
  then have c'_eq: "c' = t - word_of_int ?r" by (simp add: algebra_simps)
  have sr: "sint (word_of_int ?r :: int64) = ?r" using n by (rule sint_smod)
  have between: "(0 \<le> ?r \<and> ?r \<le> ?d) \<or> (?d \<le> ?r \<and> ?r \<le> 0)"
    using n zmod_le_nonneg_dividend[of "\<bar>?d\<bar>" "\<bar>sint n\<bar>"]
    by (auto simp: signed_modulo_int_def sgn_if)
  have "- (2 ^ 63) \<le> sint t" "sint t < 2 ^ 63" "- (2 ^ 63) \<le> sint c" "sint c < 2 ^ 63"
    using sint_ge[of t] sint_lt[of t] sint_ge[of c] sint_lt[of c] by simp_all
  with between sr have "- (2 ^ 63) \<le> sint t - sint (word_of_int ?r :: int64)"
    "sint t - sint (word_of_int ?r :: int64) < 2 ^ 63"
    by linarith+
  then have "sint (t - word_of_int ?r) = sint t - sint (word_of_int ?r :: int64)"
    by (rule sint_diff_exact)
  with c'_eq sr show ?thesis by simp
qed

lemma axis_exact:
  assumes n: "0 < sint (n :: int64)" and c': "c' = c + n * quo (t - c) n"
    and lo: "- (2 ^ 63) \<le> sint t - sint c" and hi: "sint t - sint c < 2 ^ 63"
  shows "(sint n dvd sint t - sint c \<longrightarrow> c' = t) \<and> \<bar>sint t - sint c'\<bar> < sint n"
proof -
  have "sint (t - c) = sint t - sint c" using lo hi by (rule sint_diff_exact)
  with stride_target(4)[OF n c'] have "sint n dvd sint t - sint c \<longrightarrow> c' = t" by simp
  moreover have "\<bar>sint t - sint c'\<bar> < sint n"
    unfolding stride_target_exact[OF n c' lo hi] using n by (rule smod_abs_less)
  ultimately show ?thesis ..
qed

lemma MoveE_success:
  assumes "MoveE P x y steps m tr = (None, m', tr')"
    and "n = (if steps <s 1 then 1 else steps)"
  shows "m' = m\<lparr>m_x := m_x m + n * quo (x - m_x m) n, m_y := m_y m + n * quo (y - m_y m) n\<rparr>"
    and "tr' = tr @ map (\<lambda>i. (''Input.dispatchMouseEvent'',
                mouseMoved P (m_x m + of_nat (Suc i) * quo (x - m_x m) n)
                  (m_y m + of_nat (Suc i) * quo (y - m_y m) n)
                  (fst (EncodeMouseButton P (m_buttons m)))
                  (snd (EncodeMouseButton P (m_buttons m))), None)) [0..<nat (sint n)]"
proof -
  have pos: "0 < sint n" unfolding assms(2) by (rule norm_steps_pos)
  then have n: "of_nat (nat (sint n)) = n" by (simp add: of_nat_nat_sint)
  from MoveE_trace[OF assms(1,2) refl refl] n
  show "m' = m\<lparr>m_x := m_x m + n * quo (x - m_x m) n, m_y := m_y m + n * quo (y - m_y m) n\<rparr>"
    by auto
  from MoveE_trace[OF assms(1,2) refl refl]
  show "tr' = tr @ map (\<lambda>i. (''Input.dispatchMouseEvent'',
                mouseMoved P (m_x m + of_nat (Suc i) * quo (x - m_x m) n)
                  (m_y m + of_nat (Suc i) * quo (y - m_y m) n)
                  (fst (EncodeMouseButton P (m_buttons m)))
                  (snd (EncodeMouseButton P (m_buttons m))), None)) [0..<nat (sint n)]"
    by auto
qed

subsection \<open>The claims about \<open>mouse.go\<close>\<close>

text \<open>
  Claim C1, as amended. A \<open>MoveE\<close> whose dispatches all succeed treats \<open>steps < 1\<close> as 1,
  computes one stride per axis, \<open>(target - current) / steps\<close> with truncating 64-bit
  division, and dispatches \<open>steps\<close> moves, the \<open>i\<close>-th at \<open>i\<close> strides from the start.
  With one step the cursor ends on the target. With \<open>n\<close> steps it ends on the target when
  \<open>n\<close> divides the difference the code computes, and otherwise misses it by less than
  \<open>n\<close>, the miss being measured as the code would measure it, by 64-bit subtraction.
  Whenever the true difference of target and start fits 64 bits, the same holds of the
  true difference and of the true distance. The end position depends on the start, the
  target and \<open>steps\<close> only.
\<close>

theorem Move_final_position:
  assumes run: "MoveE P x y steps m tr = (None, m', tr')"
    and n: "n = (if steps <s 1 then 1 else steps)"
  shows "MoveE P x y steps m tr = MoveE P x y n m tr \<and>
    m_x m' = m_x m + n * quo (x - m_x m) n \<and> m_y m' = m_y m + n * quo (y - m_y m) n \<and>
    tr' = tr @ map (\<lambda>i. (''Input.dispatchMouseEvent'',
                mouseMoved P (m_x m + of_nat (Suc i) * quo (x - m_x m) n)
                  (m_y m + of_nat (Suc i) * quo (y - m_y m) n)
                  (fst (EncodeMouseButton P (m_buttons m)))
                  (snd (EncodeMouseButton P (m_buttons m))), None)) [0..<nat (sint n)] \<and>
    (n = 1 \<longrightarrow> m_x m' = x \<and> m_y m' = y) \<and>
    (sint n dvd sint (x - m_x m) \<longrightarrow> m_x m' = x) \<and>
    (sint n dvd sint (y - m_y m) \<longrightarrow> m_y m' = y) \<and>
    \<bar>sint (x - m_x m')\<bar> < sint n \<and> \<bar>sint (y - m_y m')\<bar> < sint n \<and>
    (- (2 ^ 63) \<le> sint x - sint (m_x m) \<and> sint x - sint (m_x m) < 2 ^ 63 \<longrightarrow>
       (sint n dvd sint x - sint (m_x m) \<longrightarrow> m_x m' = x) \<and>
       \<bar>sint x - sint (m_x m')\<bar> < sint n) \<and>
    (- (2 ^ 63) \<le> sint y - sint (m_y m) \<and> sint y - sint (m_y m) < 2 ^ 63 \<longrightarrow>
       (sint n dvd sint y - sint (m_y m) \<longrightarrow> m_y m' = y) \<and>
       \<bar>sint y - sint (m_y m')\<bar> < sint n) \<and>
    (\<forall>P2 m2 tr2 m2' tr2'.
       m_x m2 = m_x m \<and> m_y m2 = m_y m \<and> MoveE P2 x y steps m2 tr2 = (None, m2', tr2')
       \<longrightarrow> m_x m2' = m_x m' \<and> m_y m2' = m_y m')"
proof -
  have pos: "0 < sint n" unfolding n by (rule norm_steps_pos)
  note fin = MoveE_success[OF run n]
  have X: "m_x m' = m_x m + n * quo (x - m_x m) n" using fin(1) by simp
  have Y: "m_y m' = m_y m + n * quo (y - m_y m) n" using fin(1) by simp
  have one: "n = 1 \<longrightarrow> m_x m' = x \<and> m_y m' = y"
    using stride_target(4)[OF pos X] stride_target(4)[OF pos Y] by auto
  have det: "\<forall>P2 m2 tr2 m2' tr2'.
       m_x m2 = m_x m \<and> m_y m2 = m_y m \<and> MoveE P2 x y steps m2 tr2 = (None, m2', tr2')
       \<longrightarrow> m_x m2' = m_x m' \<and> m_y m2' = m_y m'"
  proof (intro allI impI, elim conjE)
    fix P2 m2 tr2 m2' tr2'
    assume eq: "m_x m2 = m_x m" "m_y m2 = m_y m"
      and run2: "MoveE P2 x y steps m2 tr2 = (None, m2', tr2')"
    from MoveE_success(1)[OF run2 n] eq X Y
    show "m_x m2' = m_x m' \<and> m_y m2' = m_y m'" by simp
  qed
  show ?thesis
    using MoveE_norm_steps[of P x y steps m tr] X Y fin(2) one
      stride_target(4)[OF pos X] stride_target(4)[OF pos Y]
      stride_target(3)[OF pos X] stride_target(3)[OF pos Y]
      axis_exact[OF pos X] axis_exact[OF pos Y] det
    unfolding n by blast
qed

text \<open>
  Three steps from the origin towards \<open>(10, 7)\<close>: the strides are 3 and 2, the cursor ends
  at \<open>(9, 6)\<close>, one unit short on each axis. The difference 10 is not a multiple of 3; a
  move to \<open>(9, 6)\<close> in three steps, whose differences are, ends on the target.
\<close>

theorem Move_final_position_witness:
  "MoveE ok_page 10 7 3 m0 [] =
     (None, \<lparr>m_x = 9, m_y = 6, m_buttons = []\<rparr>, snd (snd (MoveE ok_page 10 7 3 m0 []))) \<and>
   (3 :: int64) = (if (3 :: int64) <s 1 then 1 else 3) \<and>
   - (2 ^ 63) \<le> sint (10 :: int64) - sint (m_x m0) \<and> sint (10 :: int64) - sint (m_x m0) < 2 ^ 63 \<and>
   - (2 ^ 63) \<le> sint (7 :: int64) - sint (m_y m0) \<and> sint (7 :: int64) - sint (m_y m0) < 2 ^ 63 \<and>
   \<bar>sint (10 :: int64) - sint (9 :: int64)\<bar> < sint (3 :: int64) \<and>
   \<bar>sint (7 :: int64) - sint (6 :: int64)\<bar> < sint (3 :: int64) \<and>
   sint (3 :: int64) dvd sint (9 - m_x m0) \<and> sint (3 :: int64) dvd sint (6 - m_y m0) \<and>
   m_x (fst (snd (MoveE ok_page 9 6 3 m0 []))) = 9 \<and>
   m_y (fst (snd (MoveE ok_page 9 6 3 m0 []))) = 6"
proof -
  have run: "MoveE ok_page 10 7 3 m0 [] =
     (None, \<lparr>m_x = 9, m_y = 6, m_buttons = []\<rparr>, snd (snd (MoveE ok_page 10 7 3 m0 [])))"
    by code_simp
  have run': "MoveE ok_page 9 6 3 m0 [] =
     (None, fst (snd (MoveE ok_page 9 6 3 m0 [])), snd (snd (MoveE ok_page 9 6 3 m0 [])))"
    by code_simp
  have n: "(3 :: int64) = (if (3 :: int64) <s 1 then 1 else 3)" by (simp add: word_sless_alt)
  have fits: "- (2 ^ 63) \<le> sint (10 :: int64) - sint (m_x m0)"
    "sint (10 :: int64) - sint (m_x m0) < 2 ^ 63"
    "- (2 ^ 63) \<le> sint (7 :: int64) - sint (m_y m0)"
    "sint (7 :: int64) - sint (m_y m0) < 2 ^ 63"
    by (simp_all add: m0_def)
  have dvd: "sint (3 :: int64) dvd sint (9 - m_x m0)" "sint (3 :: int64) dvd sint (6 - m_y m0)"
    by (simp_all add: m0_def)
  have "\<bar>sint (10 :: int64) - sint (m_x \<lparr>m_x = 9 :: int64, m_y = 6 :: int64, m_buttons = []\<rparr>)\<bar>
      < sint (3 :: int64)"
    "\<bar>sint (7 :: int64) - sint (m_y \<lparr>m_x = 9 :: int64, m_y = 6 :: int64, m_buttons = []\<rparr>)\<bar>
      < sint (3 :: int64)"
    using Move_final_position[OF run n] fits by blast+
  then have "\<bar>sint (10 :: int64) - sint (9 :: int64)\<bar> < sint (3 :: int64)"
    "\<bar>sint (7 :: int64) - sint (6 :: int64)\<bar> < sint (3 :: int64)"
    by simp_all
  moreover have "m_x (fst (snd (MoveE ok_page 9 6 3 m0 []))) = 9"
    "m_y (fst (snd (MoveE ok_page 9 6 3 m0 []))) = 6"
    using Move_final_position[OF run' n] dvd by blast+
  ultimately show ?thesis using run n fits dvd by blast
qed

text \<open>
  Claim C1 as stated fails where the subtraction overflows. A mouse at the origin is
  moved to \<open>x = -2^63\<close> in one step and from there towards \<open>x = 2^63 - 1\<close> in 3 steps. The
  second move computes the difference \<open>-1\<close> and the stride 0: every dispatch succeeds
  and the cursor stays at \<open>-2^63\<close>, which is \<open>2^64 - 1\<close> units from the target, although 3
  divides that distance.
\<close>

theorem Move_overflow_counterexample:
  "fst (seq (MoveE ok_page (- (2 ^ 63)) 0 1) (MoveE ok_page (2 ^ 63 - 1) 0 3) m0 []) = None \<and>
   m_x (fst (snd (seq (MoveE ok_page (- (2 ^ 63)) 0 1) (MoveE ok_page (2 ^ 63 - 1) 0 3) m0 [])))
     = - (2 ^ 63) \<and>
   length (snd (snd (seq (MoveE ok_page (- (2 ^ 63)) 0 1) (MoveE ok_page (2 ^ 63 - 1) 0 3) m0 [])))
     = 4 \<and>
   (3 :: int) dvd sint (2 ^ 63 - 1 :: int64) - sint (- (2 ^ 63) :: int64) \<and>
   (- (2 ^ 63) :: int64) \<noteq> 2 ^ 63 - 1 \<and>
   \<not> \<bar>sint (2 ^ 63 - 1 :: int64) - sint (- (2 ^ 63) :: int64)\<bar> < 3"
  by code_simp

text \<open>
  Claim C2. A successful \<open>Down\<close> appends the button to the pressed sequence, whatever the
  sequence holds; a successful \<open>Up\<close> keeps exactly the buttons that differ from the one
  released. So, from an empty sequence: left down, left up leaves it empty; left down,
  right down, left up leaves \<open>[right]\<close>; left down twice leaves \<open>[left, left]\<close>, and one
  left up then empties it.
\<close>

theorem pressed_sequence:
  "(DownE P b c m tr = (None, m', tr') \<longrightarrow> m_buttons m' = m_buttons m @ [b]) \<and>
   (UpE P b c m tr = (None, m'', tr'') \<longrightarrow>
      m_buttons m'' = filter (\<lambda>btn. btn \<noteq> b) (m_buttons m)) \<and>
   (m_buttons m = [] \<longrightarrow>
      (seq (Down P ''left'') (Up P ''left'') m tr = (None, ma, tra) \<longrightarrow> m_buttons ma = []) \<and>
      (seq (Down P ''left'') (seq (Down P ''right'') (Up P ''left'')) m tr = (None, mb, trb)
         \<longrightarrow> m_buttons mb = [''right'']) \<and>
      (seq (Down P ''left'') (Down P ''left'') m tr = (None, mc, trc)
         \<longrightarrow> m_buttons mc = [''left'', ''left'']) \<and>
      (seq (Down P ''left'') (seq (Down P ''left'') (Up P ''left'')) m tr = (None, md, trd)
         \<longrightarrow> m_buttons md = []))"
  by (auto simp: seq_def Down_def Up_def split: prod.splits option.splits dest!: DownE_ok UpE_ok)

theorem pressed_sequence_witness:
  "DownE ok_page ''left'' 1 m0 [] =
     (None, m0\<lparr>m_buttons := [''left'']\<rparr>, snd (snd (DownE ok_page ''left'' 1 m0 []))) \<and>
   UpE ok_page ''left'' 1 m0 [] = (None, m0, snd (snd (UpE ok_page ''left'' 1 m0 []))) \<and>
   m_buttons m0 = [] \<and>
   seq (Down ok_page ''left'') (Up ok_page ''left'') m0 [] =
     (None, m0, snd (snd (seq (Down ok_page ''left'') (Up ok_page ''left'') m0 []))) \<and>
   seq (Down ok_page ''left'') (seq (Down ok_page ''right'') (Up ok_page ''left'')) m0 [] =
     (None, m0\<lparr>m_buttons := [''right'']\<rparr>,
      snd (snd (seq (Down ok_page ''left'')
                 (seq (Down ok_page ''right'') (Up ok_page ''left'')) m0 []))) \<and>
   seq (Down ok_page ''left'') (Down ok_page ''left'') m0 [] =
     (None, m0\<lparr>m_buttons := [''left'', ''left'']\<rparr>,
      snd (snd (seq (Down ok_page ''left'') (Down ok_page ''left'') m0 []))) \<and>
   seq (Down ok_page ''left'') (seq (Down ok_page ''left'') (Up ok_page ''left'')) m0 [] =
     (None, m0,
      snd (snd (seq (Down ok_page ''left'')
                 (seq (Down ok_page ''left'') (Up ok_page ''left'')) m0 []))) \<and>
   m_buttons (m0\<lparr>m_buttons := [''right'']\<rparr>) = [''right''] \<and>
   m_buttons (m0\<lparr>m_buttons := [''left'', ''left'']\<rparr>) = [''left'', ''left'']"
proof -
  have d: "DownE ok_page ''left'' 1 m0 [] =
     (None, m0\<lparr>m_buttons := [''left'']\<rparr>, snd (snd (DownE ok_page ''left'' 1 m0 [])))"
    by code_simp
  have u: "UpE ok_page ''left'' 1 m0 [] = (None, m0, snd (snd (UpE ok_page ''left'' 1 m0 [])))"
    by code_simp
  have e: "m_buttons m0 = []" by code_simp
  have s1: "seq (Down ok_page ''left'') (Up ok_page ''left'') m0 [] =
     (None, m0, snd (snd (seq (Down ok_page ''left'') (Up ok_page ''left'') m0 [])))"
    by code_simp
  have s2: "seq (Down ok_page ''left'') (seq (Down ok_page ''right'') (Up ok_page ''left'')) m0 [] =
     (None, m0\<lparr>m_buttons := [''right'']\<rparr>,
      snd (snd (seq (Down ok_page ''left'')
                 (seq (Down ok_page ''right'') (Up ok_page ''left'')) m0 [])))"
    by code_simp
  have s3: "seq (Down ok_page ''left'') (Down ok_page ''left'') m0 [] =
     (None, m0\<lparr>m_buttons := [''left'', ''left'']\<rparr>,
      snd (snd (seq (Down ok_page ''left'') (Down ok_page ''left'') m0 [])))"
    by code_simp
  have s4: "seq (Down ok_page ''left'') (seq (Down ok_page ''left'') (Up ok_page ''left'')) m0 [] =
     (None, m0,
      snd (snd (seq (Down ok_page ''left'')
                 (seq (Down ok_page ''left'') (Up ok_page ''left'')) m0 [])))"
    by code_simp
  from pressed_sequence[where P = ok_page and m = m0 and tr = "[]"] d u e s1 s2 s3 s4
  show ?thesis by simp
qed

text \<open>
  Claim C5. \<open>MoveE\<close>, \<open>DownE\<close> and \<open>UpE\<close> change the controller's state only after a
  dispatch that succeeded, and return the error of the dispatch that failed. When
  \<open>MoveE\<close> returns, \<open>k\<close> dispatches have succeeded and the cursor is \<open>k\<close> strides from the
  start; on an error that is the position of the step before the failing one, which is
  step \<open>k + 1\<close> and the last exchange. \<open>DownE\<close> and \<open>UpE\<close> make one exchange and return
  its result; on an error the state is the one they started from.
\<close>

theorem commit_after_dispatch:
  "(MoveE P x y steps m tr = (r, m', tr') \<and> n = (if steps <s 1 then 1 else steps) \<and>
      sx = quo (x - m_x m) n \<and> sy = quo (y - m_y m) n \<longrightarrow>
      (\<exists>k\<le>nat (sint n).
         m' = m\<lparr>m_x := m_x m + of_nat k * sx, m_y := m_y m + of_nat k * sy\<rparr> \<and>
         tr' = tr @ map (\<lambda>i. (''Input.dispatchMouseEvent'',
                mouseMoved P (m_x m + of_nat (Suc i) * sx) (m_y m + of_nat (Suc i) * sy)
                  (fst (EncodeMouseButton P (m_buttons m)))
                  (snd (EncodeMouseButton P (m_buttons m))),
                if i < k then None else r)) [0..<(if r = None then k else Suc k)] \<and>
         (r = None \<longrightarrow> k = nat (sint n)) \<and> (r \<noteq> None \<longrightarrow> k < nat (sint n)))) \<and>
   (DownE P b c m tr = (rd, md, trd) \<longrightarrow>
      rd = Call P tr ''Input.dispatchMouseEvent''
             (mousePressed P m b (snd (EncodeMouseButton P (m_buttons m @ [b]))) c) \<and>
      trd = tr @ [(''Input.dispatchMouseEvent'',
             mousePressed P m b (snd (EncodeMouseButton P (m_buttons m @ [b]))) c, rd)] \<and>
      (rd \<noteq> None \<longrightarrow> md = m) \<and>
      (rd = None \<longrightarrow> md = m\<lparr>m_buttons := m_buttons m @ [b]\<rparr>)) \<and>
   (UpE P b c m tr = (ru, mu, tru) \<longrightarrow>
      ru = Call P tr ''Input.dispatchMouseEvent''
             (mouseReleased m b
               (snd (EncodeMouseButton P (filter (\<lambda>btn. btn \<noteq> b) (m_buttons m)))) c) \<and>
      tru = tr @ [(''Input.dispatchMouseEvent'',
             mouseReleased m b
               (snd (EncodeMouseButton P (filter (\<lambda>btn. btn \<noteq> b) (m_buttons m)))) c, ru)] \<and>
      (ru \<noteq> None \<longrightarrow> mu = m) \<and>
      (ru = None \<longrightarrow> mu = m\<lparr>m_buttons := filter (\<lambda>btn. btn \<noteq> b) (m_buttons m)\<rparr>))"
proof (intro conjI impI)
  assume "MoveE P x y steps m tr = (r, m', tr') \<and> n = (if steps <s 1 then 1 else steps) \<and>
      sx = quo (x - m_x m) n \<and> sy = quo (y - m_y m) n"
  then show "\<exists>k\<le>nat (sint n).
         m' = m\<lparr>m_x := m_x m + of_nat k * sx, m_y := m_y m + of_nat k * sy\<rparr> \<and>
         tr' = tr @ map (\<lambda>i. (''Input.dispatchMouseEvent'',
                mouseMoved P (m_x m + of_nat (Suc i) * sx) (m_y m + of_nat (Suc i) * sy)
                  (fst (EncodeMouseButton P (m_buttons m)))
                  (snd (EncodeMouseButton P (m_buttons m))),
                if i < k then None else r)) [0..<(if r = None then k else Suc k)] \<and>
         (r = None \<longrightarrow> k = nat (sint n)) \<and> (r \<noteq> None \<longrightarrow> k < nat (sint n))"
    using MoveE_trace[of P x y steps m tr r m' tr' n sx sy] by blast
qed (auto dest!: DownE_eq UpE_eq)

text \<open>
  A page that refuses the move to \<open>x = 6\<close> and every press and release. Three steps from
  the origin towards \<open>(9, 6)\<close>: the first dispatch, to \<open>(3, 2)\<close>, succeeds, the second
  fails, and the cursor is left at \<open>(3, 2)\<close>. A press and a release fail and leave the
  state as it was.
\<close>

theorem commit_after_dispatch_witness:
  "MoveE (failing_page (\<lambda>obj. ev_type obj \<noteq> ''mouseMoved'' \<or> ev_x obj = 6) Canceled) 9 6 3 m0 []
     = (Some Canceled, \<lparr>m_x = 3, m_y = 2, m_buttons = []\<rparr>,
        snd (snd (MoveE (failing_page (\<lambda>obj. ev_type obj \<noteq> ''mouseMoved'' \<or> ev_x obj = 6)
          Canceled) 9 6 3 m0 []))) \<and>
   (3 :: int64) = (if (3 :: int64) <s 1 then 1 else 3) \<and>
   (3 :: int64) = quo (9 - m_x m0) 3 \<and> (2 :: int64) = quo (6 - m_y m0) 3 \<and>
   DownE (failing_page (\<lambda>obj. ev_type obj \<noteq> ''mouseMoved'' \<or> ev_x obj = 6) Canceled)
      ''left'' 1 m0 []
     = (Some Canceled, m0,
        snd (snd (DownE (failing_page (\<lambda>obj. ev_type obj \<noteq> ''mouseMoved'' \<or> ev_x obj = 6)
          Canceled) ''left'' 1 m0 []))) \<and>
   UpE (failing_page (\<lambda>obj. ev_type obj \<noteq> ''mouseMoved'' \<or> ev_x obj = 6) Canceled)
      ''left'' 1 m0 []
     = (Some Canceled, m0,
        snd (snd (UpE (failing_page (\<lambda>obj. ev_type obj \<noteq> ''mouseMoved'' \<or> ev_x obj = 6)
          Canceled) ''left'' 1 m0 []))) \<and>
   (\<exists>k\<le>nat (sint (3 :: int64)).
      \<lparr>m_x = 3 :: int64, m_y = 2 :: int64, m_buttons = []\<rparr>
        = m0\<lparr>m_x := m_x m0 + of_nat k * 3, m_y := m_y m0 + of_nat k * 2\<rparr> \<and>
      k < nat (sint (3 :: int64)))"
proof -
  let ?P = "failing_page (\<lambda>obj. ev_type obj \<noteq> ''mouseMoved'' \<or> ev_x obj = 6) Canceled"
  have mv: "MoveE ?P 9 6 3 m0 [] = (Some Canceled, \<lparr>m_x = 3, m_y = 2, m_buttons = []\<rparr>,
        snd (snd (MoveE ?P 9 6 3 m0 [])))"
    by code_simp
  have n: "(3 :: int64) = (if (3 :: int64) <s 1 then 1 else 3)"
    by (simp add: word_sless_alt)
  have sx: "(3 :: int64) = quo (9 - m_x m0) 3" and sy: "(2 :: int64) = quo (6 - m_y m0) 3"
    by code_simp+
  have dn: "DownE ?P ''left'' 1 m0 [] = (Some Canceled, m0, snd (snd (DownE ?P ''left'' 1 m0 [])))"
    by code_simp
  have up: "UpE ?P ''left'' 1 m0 [] = (Some Canceled, m0, snd (snd (UpE ?P ''left'' 1 m0 [])))"
    by code_simp
  have ex: "\<exists>k\<le>nat (sint (3 :: int64)).
      \<lparr>m_x = 3 :: int64, m_y = 2 :: int64, m_buttons = []\<rparr>
        = m0\<lparr>m_x := m_x m0 + of_nat k * 3, m_y := m_y m0 + of_nat k * 2\<rparr> \<and>
      k < nat (sint (3 :: int64))"
    using commit_after_dispatch[where P = ?P and x = 9 and y = 6 and steps = 3 and m = m0
        and tr = "[]" and r = "Some Canceled" and n = 3 and sx = 3 and sy = 2
        and m' = "\<lparr>m_x = 3, m_y = 2, m_buttons = []\<rparr>"
        and tr' = "snd (snd (MoveE ?P 9 6 3 m0 []))"] mv n sx sy
    by blast
  show ?thesis by (intro conjI mv n sx sy dn up ex)
qed


text \<open>
  Claim C6. \<open>ClickE\<close> presses and then releases the button, \<open>left\<close> when the button given is
  empty. The press is one \<open>Input.dispatchMouseEvent\<close> of type \<open>mousePressed\<close>, for that
  button, with click count 1, at the cursor, with the buttons encoded from the pressed
  sequence with the button appended and with the keyboard's modifiers. The release is one
  \<open>Input.dispatchMouseEvent\<close> of type \<open>mouseReleased\<close>, for that button, with click count 1,
  at the cursor, with the buttons encoded from the sequence without the button. When the
  press fails its error is returned, the press is the only exchange and the state is
  unchanged. When the press succeeds the release follows and its result is the result of
  the click; when the release fails the button stays at the end of the pressed sequence.
  \<open>Click\<close> is \<open>ClickE\<close>, the error handed to \<open>kit.E\<close>.
\<close>

theorem Click_down_then_up:
  assumes "Click P button m tr = (r, m', tr')"
    and "b = (if button = '''' then ''left'' else button)"
    and "pr = \<lparr>ev_type = ''mousePressed'', ev_x = m_x m, ev_y = m_y m, ev_button = b,
               ev_buttons = snd (EncodeMouseButton P (m_buttons m @ [b])),
               ev_clickCount = Some 1, ev_modifiers = Some (modifiers P)\<rparr>"
    and "rl = \<lparr>ev_type = ''mouseReleased'', ev_x = m_x m, ev_y = m_y m, ev_button = b,
               ev_buttons = snd (EncodeMouseButton P
                                   (filter (\<lambda>btn. btn \<noteq> b) (m_buttons m @ [b]))),
               ev_clickCount = Some 1, ev_modifiers = None\<rparr>"
  shows "ClickE P button m tr = (r, m', tr') \<and>
     (\<exists>rd. rd = Call P tr ''Input.dispatchMouseEvent'' pr \<and>
     (rd \<noteq> None \<longrightarrow> r = rd \<and> m' = m \<and> tr' = tr @ [(''Input.dispatchMouseEvent'', pr, rd)]) \<and>
     (rd = None \<longrightarrow>
        tr' = tr @ [(''Input.dispatchMouseEvent'', pr, None),
                    (''Input.dispatchMouseEvent'', rl, r)] \<and>
        r = Call P (tr @ [(''Input.dispatchMouseEvent'', pr, None)])
              ''Input.dispatchMouseEvent'' rl \<and>
        (r \<noteq> None \<longrightarrow> m' = m\<lparr>m_buttons := m_buttons m @ [b]\<rparr>) \<and>
        (r = None \<longrightarrow> m' = m\<lparr>m_buttons := filter (\<lambda>btn. btn \<noteq> b) (m_buttons m)\<rparr>)))"
proof -
  have run: "ClickE P button m tr = (r, m', tr')"
    using assms(1) by (simp add: Click_def)
  have click: "ClickE P button m tr =
      (case DownE P b 1 m tr of
         (Some err, m', tr') \<Rightarrow> (Some err, m', tr')
       | (None, m', tr') \<Rightarrow> UpE P b 1 m' tr')"
  proof -
    have "(if button = '''' then defaultMouseButton else button) = b"
      by (simp add: assms(2) defaultMouseButton_def)
    then show ?thesis unfolding ClickE_def Let_def
      by (auto split: prod.splits option.splits if_splits)
  qed
  have pr: "pr = mousePressed P m b (snd (EncodeMouseButton P (m_buttons m @ [b]))) 1"
    by (simp add: assms(3) mousePressed_def)
  have rl: "rl = mouseReleased (m\<lparr>m_buttons := m_buttons m @ [b]\<rparr>) b
               (snd (EncodeMouseButton P (filter (\<lambda>btn. btn \<noteq> b) (m_buttons m @ [b])))) 1"
    by (simp add: assms(4) mouseReleased_def)
  obtain rd md trd where down: "DownE P b 1 m tr = (rd, md, trd)"
    by (cases "DownE P b 1 m tr")
  note d = DownE_eq[OF down]
  have rd: "rd = Call P tr ''Input.dispatchMouseEvent'' pr"
    and trd: "trd = tr @ [(''Input.dispatchMouseEvent'', pr, rd)]"
    and md: "md = (if rd = None then m\<lparr>m_buttons := m_buttons m @ [b]\<rparr> else m)"
    using d pr by simp_all
  have fail: "r = rd \<and> m' = m \<and> tr' = tr @ [(''Input.dispatchMouseEvent'', pr, rd)]"
    if "rd \<noteq> None"
  proof -
    from that obtain e where e: "rd = Some e" by (cases rd) simp_all
    with run click down have "r = rd" "m' = md" "tr' = trd" by simp_all
    with trd md e show ?thesis by simp
  qed
  have ok: "tr' = tr @ [(''Input.dispatchMouseEvent'', pr, None),
                    (''Input.dispatchMouseEvent'', rl, r)] \<and>
        r = Call P (tr @ [(''Input.dispatchMouseEvent'', pr, None)])
              ''Input.dispatchMouseEvent'' rl \<and>
        (r \<noteq> None \<longrightarrow> m' = m\<lparr>m_buttons := m_buttons m @ [b]\<rparr>) \<and>
        (r = None \<longrightarrow> m' = m\<lparr>m_buttons := filter (\<lambda>btn. btn \<noteq> b) (m_buttons m)\<rparr>)"
    if none: "rd = None"
  proof -
    from none run click down have "UpE P b 1 md trd = (r, m', tr')" by simp
    from UpE_eq[OF this] none trd md rl show ?thesis by simp
  qed
  have ex: "\<exists>rd. rd = Call P tr ''Input.dispatchMouseEvent'' pr \<and>
     (rd \<noteq> None \<longrightarrow> r = rd \<and> m' = m \<and> tr' = tr @ [(''Input.dispatchMouseEvent'', pr, rd)]) \<and>
     (rd = None \<longrightarrow>
        tr' = tr @ [(''Input.dispatchMouseEvent'', pr, None),
                    (''Input.dispatchMouseEvent'', rl, r)] \<and>
        r = Call P (tr @ [(''Input.dispatchMouseEvent'', pr, None)])
              ''Input.dispatchMouseEvent'' rl \<and>
        (r \<noteq> None \<longrightarrow> m' = m\<lparr>m_buttons := m_buttons m @ [b]\<rparr>) \<and>
        (r = None \<longrightarrow> m' = m\<lparr>m_buttons := filter (\<lambda>btn. btn \<noteq> b) (m_buttons m)\<rparr>))"
    by (rule exI[of _ rd], intro conjI rd impI[OF fail] impI[OF ok])
  show ?thesis by (intro conjI run ex)
qed

text \<open>
  A page that refuses every release: a click with no button named dispatches a press of
  \<open>left\<close> with click count 1, then a release of \<open>left\<close> with click count 1, which fails
  with the page's error, and \<open>left\<close> stays pressed. A page that refuses every press: the
  press is the only exchange and nothing is pressed.
\<close>

theorem Click_down_then_up_witness:
  "Click (failing_page (\<lambda>obj. ev_type obj = ''mouseReleased'') Canceled) '''' m0 [] =
     (Some Canceled, \<lparr>m_x = 0, m_y = 0, m_buttons = [''left'']\<rparr>,
      [(''Input.dispatchMouseEvent'',
        \<lparr>ev_type = ''mousePressed'', ev_x = 0, ev_y = 0, ev_button = ''left'',
         ev_buttons = 1, ev_clickCount = Some 1, ev_modifiers = Some 0\<rparr>, None),
       (''Input.dispatchMouseEvent'',
        \<lparr>ev_type = ''mouseReleased'', ev_x = 0, ev_y = 0, ev_button = ''left'',
         ev_buttons = 0, ev_clickCount = Some 1, ev_modifiers = None\<rparr>, Some Canceled)]) \<and>
   Click (failing_page (\<lambda>obj. ev_type obj = ''mousePressed'') Canceled) '''' m0 [] =
     (Some Canceled, \<lparr>m_x = 0, m_y = 0, m_buttons = []\<rparr>,
      [(''Input.dispatchMouseEvent'',
        \<lparr>ev_type = ''mousePressed'', ev_x = 0, ev_y = 0, ev_button = ''left'',
         ev_buttons = 1, ev_clickCount = Some 1, ev_modifiers = Some 0\<rparr>, Some Canceled)]) \<and>
   ''left'' = (if ('''' :: string) = '''' then ''left'' else '''') \<and>
   (\<exists>rd. rd = None \<and>
      \<lparr>m_x = 0, m_y = 0, m_buttons = [''left'']\<rparr> = m0\<lparr>m_buttons := m_buttons m0 @ [''left'']\<rparr>)"
proof -
  let ?P = "failing_page (\<lambda>obj. ev_type obj = ''mouseReleased'') Canceled"
  let ?pr = "\<lparr>ev_type = ''mousePressed'', ev_x = m_x m0, ev_y = m_y m0, ev_button = ''left'',
               ev_buttons = snd (EncodeMouseButton ?P (m_buttons m0 @ [''left''])),
               ev_clickCount = Some 1, ev_modifiers = Some (modifiers ?P)\<rparr>"
  have run: "Click ?P '''' m0 [] =
     (Some Canceled, \<lparr>m_x = 0, m_y = 0, m_buttons = [''left'']\<rparr>,
      [(''Input.dispatchMouseEvent'',
        \<lparr>ev_type = ''mousePressed'', ev_x = 0, ev_y = 0, ev_button = ''left'',
         ev_buttons = 1, ev_clickCount = Some 1, ev_modifiers = Some 0\<rparr>, None),
       (''Input.dispatchMouseEvent'',
        \<lparr>ev_type = ''mouseReleased'', ev_x = 0, ev_y = 0, ev_button = ''left'',
         ev_buttons = 0, ev_clickCount = Some 1, ev_modifiers = None\<rparr>, Some Canceled)])"
    by code_simp
  have run2: "Click (failing_page (\<lambda>obj. ev_type obj = ''mousePressed'') Canceled) '''' m0 [] =
     (Some Canceled, \<lparr>m_x = 0, m_y = 0, m_buttons = []\<rparr>,
      [(''Input.dispatchMouseEvent'',
        \<lparr>ev_type = ''mousePressed'', ev_x = 0, ev_y = 0, ev_button = ''left'',
         ev_buttons = 1, ev_clickCount = Some 1, ev_modifiers = Some 0\<rparr>, Some Canceled)])"
    by code_simp
  have b: "''left'' = (if ('''' :: string) = '''' then ''left'' else '''')" by simp
  have ok: "Call ?P [] ''Input.dispatchMouseEvent'' ?pr = None"
    by (simp add: failing_page_def)
  from Click_down_then_up[OF run b refl refl] ok
  have "\<lparr>m_x = 0, m_y = 0, m_buttons = [''left'']\<rparr> = m0\<lparr>m_buttons := m_buttons m0 @ [''left'']\<rparr>"
    by blast
  with run run2 b show ?thesis by blast
qed




section \<open>Properties of \<open>element.go\<close>\<close>

subsection \<open>Single calls\<close>

lemma Shape_eq: "Shape R tr el = (quads_of R tr el, tr @ [DOM_getContentQuads el (quads_of R tr el)])"
  by (simp add: Shape_def Let_def)

lemma EvalWithOptions_eq:
  "EvalWithOptions R tr el script args =
     (eval_of R tr (page el) (ObjectID el) script args,
      tr @ [Runtime_evaluate (page el) (ObjectID el) script args
              (eval_of R tr (page el) (ObjectID el) script args)])"
  by (simp add: EvalWithOptions_def Let_def)

lemma Page_Eval_eq:
  "Page_Eval R tr p code =
     (eval_of R tr p '''' (Code code) [],
      tr @ [Runtime_evaluate p '''' (Code code) [] (eval_of R tr p '''' (Code code) [])])"
  by (simp add: Page_Eval_def Let_def)

lemma ElementFromPoint_eq:
  "ElementFromPoint R tr p x y =
     (hit_of R tr p x y, tr @ [Page_elementFromPoint p x y (hit_of R tr p x y)])"
  by (simp add: ElementFromPoint_def Let_def)

lemma Release_eq:
  "Release R tr el =
     (release_of R tr (page el) (ObjectID el),
      tr @ [Runtime_release (page el) (ObjectID el) (release_of R tr (page el) (ObjectID el))])"
  by (simp add: Release_def Let_def)

lemma Describe_eq:
  "Describe R tr el depth pierce =
     (describe_of R tr el depth pierce,
      tr @ [DOM_describeNode el depth pierce (describe_of R tr el depth pierce)])"
  by (simp add: Describe_def Let_def)

lemma Elements_eq:
  "Elements R tr p sel =
     (elements_of R tr p sel, tr @ [Page_elements p sel (elements_of R tr p sel)])"
  by (simp add: Elements_def Let_def)

lemma resolveNode_eq:
  "resolveNode R tr p n =
     (resolve_of R tr p n, tr @ [Page_resolveNode p n (resolve_of R tr p n)])"
  by (simp add: resolveNode_def Let_def)

lemma hasElement_eq:
  "hasElement R tr p obj =
     (has_of R tr p obj, tr @ [Page_hasElement p obj (has_of R tr p obj)])"
  by (simp add: hasElement_def Let_def)

lemma Frame_eq:
  "Frame R tr f =
     (case describe_of R tr f 1 False of
        Inl e \<Rightarrow> Inl e
      | Inr node \<Rightarrow> Inr (Page (NodeFrameID node) (SessionID (page f)) (Some f) '''' ''''),
      tr @ [DOM_describeNode f 1 False (describe_of R tr f 1 False)])"
  by (simp add: Frame_def Describe_eq split: sum.splits)


subsection \<open>The search for the owning page\<close>

text \<open>More fuel does not change what a search returns.\<close>

lemma walk_list_mono:
  assumes W: "\<And>p el tr x. walk n R nid p el tr = Some x \<Longrightarrow> walk (n + k) R nid p el tr = Some x"
  shows "walk_list n R nid fs el tr = Some x \<Longrightarrow> walk_list (n + k) R nid fs el tr = Some x"
proof (induction fs arbitrary: el tr)
  case Nil
  then show ?case by simp
next
  case (Cons f fs)
  show ?case
  proof (cases "Frame R tr f")
    case (Pair fr tr1)
    show ?thesis
    proof (cases fr)
      case (Inl e)
      with Pair Cons.prems show ?thesis by simp
    next
      case (Inr p)
      show ?thesis
      proof (cases "resolveNode R tr1 p nid")
        case rs: (Pair res tr2)
        show ?thesis
        proof (cases res)
          case (Inl e)
          with Pair Inr rs Cons.prems show ?thesis by simp
        next
          case obj: (Inr objID)
          show ?thesis
          proof (cases "objID = ''''")
            case False
            with Pair Inr rs obj Cons.prems show ?thesis by simp
          next
            case True
            from Cons.prems Pair Inr rs obj True
            have step: "(case walk n R nid p el tr2 of
                    None \<Rightarrow> None
                  | Some (Some err, el', tr3) \<Rightarrow> Some (Some err, el', tr3)
                  | Some (None, el', tr3) \<Rightarrow> walk_list n R nid fs el' tr3) = Some x"
              by simp
            then obtain r2 el2 tr3 where w: "walk n R nid p el tr2 = Some (r2, el2, tr3)"
              by (cases "walk n R nid p el tr2") auto
            note w' = W[OF w]
            show ?thesis
            proof (cases r2)
              case (Some err)
              with step w have "x = (Some err, el2, tr3)" by simp
              with Pair Inr rs obj True w' Some show ?thesis by simp
            next
              case None
              with step w have "walk_list n R nid fs el2 tr3 = Some x" by simp
              from Cons.IH[OF this] Pair Inr rs obj True w' None show ?thesis by simp
            qed
          qed
        qed
      qed
    qed
  qed
qed

lemma walk_mono: "walk n R nid p el tr = Some x \<Longrightarrow> walk (n + k) R nid p el tr = Some x"
proof (induction n arbitrary: p el tr x)
  case 0
  then show ?case by simp
next
  case (Suc n)
  show ?case
  proof (cases "elements_of R tr p ''iframe''")
    case (Inl e)
    with Suc.prems show ?thesis by (simp add: Elements_eq)
  next
    case (Inr list)
    with Suc.prems have "walk_list n R nid list el
        (tr @ [Page_elements p ''iframe'' (Inr list)]) = Some x"
      by (simp add: Elements_eq)
    moreover have "\<And>p el tr x. walk n R nid p el tr = Some x \<Longrightarrow>
        walk (n + k) R nid p el tr = Some x"
      by (rule Suc.IH)
    ultimately have "walk_list (n + k) R nid list el
        (tr @ [Page_elements p ''iframe'' (Inr list)]) = Some x"
      by (rule walk_list_mono[rotated])
    with Inr show ?thesis by (simp add: Elements_eq)
  qed
qed

lemma walk_list_more:
  "walk_list n R nid fs el tr = Some x \<Longrightarrow> walk_list (n + k) R nid fs el tr = Some x"
  by (rule walk_list_mono) (rule walk_mono)

text \<open>Every return of the closure \<open>walk\<close> is a search as described.\<close>

lemma walk_list_sound:
  assumes W: "\<And>p el tr r el' tr'. walk n R nid p el tr = Some (r, el', tr') \<Longrightarrow>
      \<exists>new out. tr' = tr @ new \<and> searching R nid p tr new out \<and> agrees r el el' out"
  shows "walk_list n R nid fs el tr = Some (r, el', tr') \<Longrightarrow>
      \<exists>new out. tr' = tr @ new \<and> searching_list R nid fs tr new out \<and> agrees r el el' out"
proof (induction fs arbitrary: el tr)
  case Nil
  then show ?case
    by (intro exI[of _ "[]"] exI[of _ NotFound])
       (simp add: agrees_def searching_searching_list.exhausted)
next
  case (Cons f fs)
  let ?d = "describe_of R tr f 1 False"
  show ?case
  proof (cases ?d)
    case (Inl e)
    with Cons.prems have "r = Some e" "el' = el" "tr' = tr @ [DOM_describeNode f 1 False (Inl e)]"
      by (auto simp: Frame_eq)
    with Inl show ?thesis
      by (intro exI[of _ "[DOM_describeNode f 1 False (Inl e)]"] exI[of _ "Failed e"])
         (simp add: agrees_def searching_searching_list.describe_failed)
  next
    case (Inr node)
    let ?evd = "DOM_describeNode f 1 False (Inr node)"
    let ?p = "Page (NodeFrameID node) (SessionID (page f)) (Some f) '''' ''''"
    let ?tr1 = "tr @ [?evd]"
    let ?s = "resolve_of R ?tr1 ?p nid"
    show ?thesis
    proof (cases ?s)
      case (Inl e)
      with Cons.prems Inr have "r = Some e" "el' = el"
        "tr' = tr @ [?evd, Page_resolveNode ?p nid (Inl e)]"
        by (auto simp: Frame_eq resolveNode_eq)
      with searching_searching_list.resolve_failed[OF Inr refl Inl] show ?thesis
        by (intro exI[of _ "[?evd, Page_resolveNode ?p nid (Inl e)]"] exI[of _ "Failed e"])
           (simp add: agrees_def)
    next
      case res: (Inr obj)
      show ?thesis
      proof (cases "obj = ''''")
        case False
        with Cons.prems Inr res have "r = Some EOF" "el' = Element ?p obj"
          "tr' = tr @ [?evd, Page_resolveNode ?p nid (Inr obj)]"
          by (auto simp: Frame_eq resolveNode_eq)
        with searching_searching_list.resolved[OF Inr refl res False] show ?thesis
          by (intro exI[of _ "[?evd, Page_resolveNode ?p nid (Inr obj)]"]
                exI[of _ "Found ?p obj"])
             (simp add: agrees_def)
      next
        case True
        let ?evr = "Page_resolveNode ?p nid (Inr '''')"
        let ?tr2 = "tr @ [?evd, ?evr]"
        from res True have res': "?s = Inr ''''" by simp
        from Cons.prems Inr res'
        have step: "(case walk n R nid ?p el ?tr2 of
                    None \<Rightarrow> None
                  | Some (Some err, el', tr3) \<Rightarrow> Some (Some err, el', tr3)
                  | Some (None, el', tr3) \<Rightarrow> walk_list n R nid fs el' tr3) = Some (r, el', tr')"
          by (simp add: Frame_eq resolveNode_eq)
        then obtain r2 el2 tr3 where w: "walk n R nid ?p el ?tr2 = Some (r2, el2, tr3)"
          by (cases "walk n R nid ?p el ?tr2") auto
        from W[OF w] obtain new2 out2 where new2: "tr3 = ?tr2 @ new2"
          "searching R nid ?p ?tr2 new2 out2" "agrees r2 el el2 out2" by blast
        show ?thesis
        proof (cases r2)
          case (Some err)
          with step w have out: "r = Some err" "el' = el2" "tr' = tr3" by simp_all
          from new2(3) Some have "out2 \<noteq> NotFound"
            by (auto simp: agrees_def)
          from searching_searching_list.inside[OF Inr refl res' new2(2) this]
          have "searching_list R nid (f # fs) tr (?evd # ?evr # new2) out2" .
          with new2 out Some show ?thesis
            by (intro exI[of _ "?evd # ?evr # new2"] exI[of _ out2]) simp
        next
          case None
          with new2(3) have nf: "out2 = NotFound" "el2 = el"
            by (auto simp: agrees_def split: search.splits)
          from step w None nf have "walk_list n R nid fs el tr3 = Some (r, el', tr')" by simp
          from Cons.IH[OF this] obtain new3 out3 where new3: "tr' = tr3 @ new3"
            "searching_list R nid fs tr3 new3 out3" "agrees r el el' out3" by blast
          from new2(1) new3(2)
          have "searching_list R nid fs (tr @ ?evd # ?evr # new2) new3 out3" by simp
          from searching_searching_list.next_sibling[OF Inr refl res' new2(2)[unfolded nf] this]
          have "searching_list R nid (f # fs) tr (?evd # ?evr # new2 @ new3) out3" .
          with new2(1) new3(1,3) show ?thesis
            by (intro exI[of _ "?evd # ?evr # new2 @ new3"] exI[of _ out3]) simp
        qed
      qed
    qed
  qed
qed

lemma walk_sound:
  "walk n R nid p el tr = Some (r, el', tr') \<Longrightarrow>
     \<exists>new out. tr' = tr @ new \<and> searching R nid p tr new out \<and> agrees r el el' out"
proof (induction n arbitrary: p el tr r el' tr')
  case 0
  then show ?case by simp
next
  case (Suc n)
  let ?l = "elements_of R tr p ''iframe''"
  show ?case
  proof (cases ?l)
    case (Inl e)
    with Suc.prems have "r = Some e" "el' = el" "tr' = tr @ [Page_elements p ''iframe'' (Inl e)]"
      by (auto simp: Elements_eq)
    with Inl show ?thesis
      by (intro exI[of _ "[Page_elements p ''iframe'' (Inl e)]"] exI[of _ "Failed e"])
         (simp add: agrees_def searching_searching_list.query_failed)
  next
    case (Inr list)
    let ?ev = "Page_elements p ''iframe'' (Inr list)"
    from Inr Suc.prems have "walk_list n R nid list el (tr @ [?ev]) = Some (r, el', tr')"
      by (simp add: Elements_eq)
    moreover have "\<And>p el tr r el' tr'. walk n R nid p el tr = Some (r, el', tr') \<Longrightarrow>
        \<exists>new out. tr' = tr @ new \<and> searching R nid p tr new out \<and> agrees r el el' out"
      by (rule Suc.IH)
    ultimately have "\<exists>new out. tr' = (tr @ [?ev]) @ new \<and>
        searching_list R nid list (tr @ [?ev]) new out \<and> agrees r el el' out"
      by (rule walk_list_sound[rotated])
    then obtain new out where new: "tr' = (tr @ [?ev]) @ new"
      "searching_list R nid list (tr @ [?ev]) new out" "agrees r el el' out" by blast
    from searching_searching_list.query[OF Inr new(2)] new(1,3) show ?thesis
      by (intro exI[of _ "?ev # new"] exI[of _ out]) simp
  qed
qed

text \<open>Every search as described is what the closure \<open>walk\<close> returns, given fuel enough.\<close>

lemma searching_returns:
  "searching R nid p tr new out \<Longrightarrow>
     \<exists>n. \<forall>el. \<exists>r el'. walk n R nid p el tr = Some (r, el', tr @ new) \<and> agrees r el el' out"
  "searching_list R nid fs tr new out \<Longrightarrow>
     \<exists>n. \<forall>el. \<exists>r el'. walk_list n R nid fs el tr = Some (r, el', tr @ new) \<and>
        agrees r el el' out"
proof (induction rule: searching_searching_list.inducts)
  case (query_failed tr p e)
  then show ?case
    by (intro exI[of _ "Suc 0"]) (simp add: Elements_eq agrees_def)
next
  case (query tr p fs new out)
  then obtain n where "\<forall>el. \<exists>r el'. walk_list n R nid fs el
      (tr @ [Page_elements p ''iframe'' (Inr fs)]) =
        Some (r, el', (tr @ [Page_elements p ''iframe'' (Inr fs)]) @ new) \<and> agrees r el el' out"
    by blast
  with query.IH(1) show ?case
    by (intro exI[of _ "Suc n"]) (simp add: Elements_eq)
next
  case (exhausted tr)
  show ?case
    by (intro exI[of _ 0]) (simp add: agrees_def)
next
  case (describe_failed tr f e fs)
  then show ?case
    by (intro exI[of _ 0]) (simp add: Frame_eq agrees_def)
next
  case (resolve_failed tr f node p e fs)
  then show ?case
    by (intro exI[of _ 0]) (simp add: Frame_eq resolveNode_eq agrees_def)
next
  case (resolved tr f node p obj fs)
  then show ?case
    by (intro exI[of _ 0]) (simp add: Frame_eq resolveNode_eq agrees_def)
next
  case (inside tr f node p new out fs)
  let ?tr2 = "tr @ [DOM_describeNode f 1 False (Inr node), Page_resolveNode p nid (Inr '''')]"
  from inside.IH(4) obtain n where
    n: "\<forall>el. \<exists>r el'. walk n R nid p el ?tr2 = Some (r, el', ?tr2 @ new) \<and> agrees r el el' out"
    by blast
  show ?case
  proof (intro exI[of _ n] allI)
    fix el
    from n obtain r el' where w: "walk n R nid p el ?tr2 = Some (r, el', ?tr2 @ new)"
      and a: "agrees r el el' out" by blast
    from a inside.hyps(2) obtain err where err: "r = Some err"
      by (cases out) (auto simp: agrees_def)
    from inside.IH(1,2) inside.hyps(1) w err
    have "walk_list n R nid (f # fs) el tr =
        Some (r, el', tr @ DOM_describeNode f 1 False (Inr node)
                        # Page_resolveNode p nid (Inr '''') # new)"
      by (simp add: Frame_eq resolveNode_eq)
    with a show "\<exists>r el'. walk_list n R nid (f # fs) el tr =
        Some (r, el', tr @ DOM_describeNode f 1 False (Inr node)
                        # Page_resolveNode p nid (Inr '''') # new) \<and> agrees r el el' out"
      by blast
  qed
next
  case (next_sibling tr f node p new fs rest out)
  let ?tr2 = "tr @ [DOM_describeNode f 1 False (Inr node), Page_resolveNode p nid (Inr '''')]"
  let ?tr3 = "tr @ DOM_describeNode f 1 False (Inr node) # Page_resolveNode p nid (Inr '''') # new"
  from next_sibling.IH(4) obtain n1 where
    n1: "\<forall>el. \<exists>r el'. walk n1 R nid p el ?tr2 = Some (r, el', ?tr2 @ new) \<and>
          agrees r el el' NotFound"
    by blast
  from next_sibling.IH(6) obtain n2 where
    n2: "\<forall>el. \<exists>r el'. walk_list n2 R nid fs el ?tr3 = Some (r, el', ?tr3 @ rest) \<and>
          agrees r el el' out"
    by blast
  show ?case
  proof (intro exI[of _ "n1 + n2"] allI)
    fix el
    from n1 have "walk n1 R nid p el ?tr2 = Some (None, el, ?tr2 @ new)"
      by (auto simp: agrees_def dest!: spec[of _ el])
    from walk_mono[OF this, of n2]
    have w: "walk (n1 + n2) R nid p el ?tr2 = Some (None, el, ?tr3)" by simp
    from n2 obtain r el' where l: "walk_list n2 R nid fs el ?tr3 = Some (r, el', ?tr3 @ rest)"
      and a: "agrees r el el' out" by blast
    from walk_list_more[OF l, of n1]
    have l': "walk_list (n1 + n2) R nid fs el ?tr3 = Some (r, el', ?tr3 @ rest)"
      by (simp add: add.commute)
    from next_sibling.IH(1,2) next_sibling.hyps(1) w l'
    have "walk_list (n1 + n2) R nid (f # fs) el tr =
        Some (r, el', tr @ DOM_describeNode f 1 False (Inr node)
                        # Page_resolveNode p nid (Inr '''') # new @ rest)"
      by (simp add: Frame_eq resolveNode_eq)
    with a show "\<exists>r el'. walk_list (n1 + n2) R nid (f # fs) el tr =
        Some (r, el', tr @ DOM_describeNode f 1 False (Inr node)
                        # Page_resolveNode p nid (Inr '''') # new @ rest) \<and> agrees r el el' out"
      by blast
  qed
qed


subsection \<open>The search in a frame tree that does not change\<close>

lemma probes_append: "probes (xs @ ys) = probes xs @ probes ys"
  by (induction xs rule: probes.induct) simp_all

lemma find_append_cases:
  "find P (xs @ ys) = (case find P xs of None \<Rightarrow> find P ys | Some x \<Rightarrow> Some x)"
  by (induction xs) simp_all

lemma upto_first_none: "find P xs = None \<Longrightarrow> upto_first P (xs @ ys) = xs @ upto_first P ys"
  by (induction xs) (simp_all split: if_splits)

lemma upto_first_some: "find P xs = Some x \<Longrightarrow> upto_first P (xs @ ys) = upto_first P xs"
  by (induction xs) (simp_all split: if_splits)

lemma upto_first_all: "find P xs = None \<Longrightarrow> upto_first P xs = xs"
  using upto_first_none[of P xs "[]"] by simp

lemma static_simps:
  "elements_of (static_remote kids fid res) tr p ''iframe'' = Inr (kids p)"
  "describe_of (static_remote kids fid res) tr f depth pierce = Inr (DOMNode (fid f))"
  "resolve_of (static_remote kids fid res) tr p n = Inr (res p n)"
  "has_of (static_remote kids fid res) tr p obj = Inr False"
  by (simp_all add: static_remote_def)

lemma walk_list_static:
  assumes W: "\<And>p el tr r el' tr'.
      walk n (static_remote kids fid res :: ('q, 'v) remote) nid p el tr = Some (r, el', tr') \<Longrightarrow>
      probes tr' = probes tr @ upto_first (\<lambda>q. res q nid \<noteq> '''') (dfs n kids fid p) \<and>
      finds res nid (dfs n kids fid p) el r el'"
  shows "walk_list n (static_remote kids fid res :: ('q, 'v) remote) nid fs el tr = Some (r, el', tr') \<Longrightarrow>
      probes tr' = probes tr @ upto_first (\<lambda>q. res q nid \<noteq> '''')
          (concat (map (\<lambda>f. frame_page fid f # dfs n kids fid (frame_page fid f)) fs)) \<and>
      finds res nid
          (concat (map (\<lambda>f. frame_page fid f # dfs n kids fid (frame_page fid f)) fs)) el r el'"
proof (induction fs arbitrary: el tr)
  case Nil
  then show ?case by (simp add: finds_def)
next
  case (Cons f fs)
  let ?R = "static_remote kids fid res :: ('q, 'v) remote"
  let ?P = "\<lambda>q. res q nid \<noteq> ''''"
  let ?q = "frame_page fid f"
  let ?rest = "concat (map (\<lambda>f. frame_page fid f # dfs n kids fid (frame_page fid f)) fs)"
  let ?tr2 = "tr @ [DOM_describeNode f 1 False (Inr (DOMNode (fid f))),
                   Page_resolveNode ?q nid (Inr (res ?q nid))]"
  have probes2: "probes ?tr2 = probes tr @ [?q]" by (simp add: probes_append)
  show ?case
  proof (cases "res ?q nid = ''''")
    case False
    with Cons.prems have "r = Some EOF" "el' = Element ?q (res ?q nid)" "tr' = ?tr2"
      by (simp_all add: Frame_eq resolveNode_eq static_simps frame_page_def)
    with False probes2 show ?thesis by (simp add: finds_def)
  next
    case True
    from Cons.prems True
    have step: "(case walk n ?R nid ?q el ?tr2 of
                    None \<Rightarrow> None
                  | Some (Some err, el', tr3) \<Rightarrow> Some (Some err, el', tr3)
                  | Some (None, el', tr3) \<Rightarrow> walk_list n ?R nid fs el' tr3) = Some (r, el', tr')"
      by (simp add: Frame_eq resolveNode_eq static_simps frame_page_def)
    then obtain r2 el2 tr3 where w: "walk n ?R nid ?q el ?tr2 = Some (r2, el2, tr3)"
      by (cases "walk n ?R nid ?q el ?tr2") auto
    from W[OF w] probes2
    have p3: "probes tr3 = probes tr @ ?q # upto_first ?P (dfs n kids fid ?q)"
      and f3: "finds res nid (dfs n kids fid ?q) el r2 el2" by simp_all
    show ?thesis
    proof (cases "find ?P (dfs n kids fid ?q)")
      case (Some q')
      with f3 have "r2 = Some EOF" "el2 = Element q' (res q' nid)" by (simp_all add: finds_def)
      with step w have "r = Some EOF" "el' = Element q' (res q' nid)" "tr' = tr3" by simp_all
      with p3 True Some show ?thesis
        by (simp add: finds_def find_append_cases upto_first_some)
    next
      case None
      with f3 have "r2 = None" "el2 = el" by (simp_all add: finds_def)
      with step w have "walk_list n ?R nid fs el tr3 = Some (r, el', tr')" by simp
      from Cons.IH[OF this] p3 True None show ?thesis
        by (simp add: finds_def find_append_cases upto_first_none upto_first_all)
    qed
  qed
qed

lemma walk_static:
  "walk n (static_remote kids fid res :: ('q, 'v) remote) nid p el tr = Some (r, el', tr') \<Longrightarrow>
      probes tr' = probes tr @ upto_first (\<lambda>q. res q nid \<noteq> '''') (dfs n kids fid p) \<and>
      finds res nid (dfs n kids fid p) el r el'"
proof (induction n arbitrary: p el tr r el' tr')
  case 0
  then show ?case by simp
next
  case (Suc n)
  let ?R = "static_remote kids fid res :: ('q, 'v) remote"
  let ?tr1 = "tr @ [Page_elements p ''iframe'' (Inr (kids p))]"
  from Suc.prems have "walk_list n ?R nid (kids p) el ?tr1 = Some (r, el', tr')"
    by (simp add: Elements_eq static_simps)
  moreover have "\<And>p el tr r el' tr'.
      walk n ?R nid p el tr = Some (r, el', tr') \<Longrightarrow>
      probes tr' = probes tr @ upto_first (\<lambda>q. res q nid \<noteq> '''') (dfs n kids fid p) \<and>
      finds res nid (dfs n kids fid p) el r el'"
    by (rule Suc.IH)
  ultimately have "probes tr' = probes ?tr1 @ upto_first (\<lambda>q. res q nid \<noteq> '''')
          (concat (map (\<lambda>f. frame_page fid f # dfs n kids fid (frame_page fid f)) (kids p))) \<and>
      finds res nid
          (concat (map (\<lambda>f. frame_page fid f # dfs n kids fid (frame_page fid f)) (kids p)))
          el r el'"
    by (rule walk_list_static[rotated])
  then show ?case by (simp add: probes_append)
qed

text \<open>In a tree that nests less deep than the fuel, the search returns.\<close>

lemma walk_list_returns:
  assumes W: "\<And>p el tr. shallow n kids fid p \<Longrightarrow>
      \<exists>x. walk n (static_remote kids fid res :: ('q, 'v) remote) nid p el tr = Some x"
  shows "list_all (\<lambda>f. shallow n kids fid (frame_page fid f)) fs \<Longrightarrow>
      \<exists>x. walk_list n (static_remote kids fid res :: ('q, 'v) remote) nid fs el tr = Some x"
proof (induction fs arbitrary: el tr)
  case Nil
  then show ?case by simp
next
  case (Cons f fs)
  let ?R = "static_remote kids fid res :: ('q, 'v) remote"
  let ?q = "frame_page fid f"
  let ?tr2 = "tr @ [DOM_describeNode f 1 False (Inr (DOMNode (fid f))),
                   Page_resolveNode ?q nid (Inr (res ?q nid))]"
  from Cons.prems have sh: "shallow n kids fid ?q"
    and rest: "list_all (\<lambda>f. shallow n kids fid (frame_page fid f)) fs" by simp_all
  from W[OF sh] obtain r2 el2 tr3 where w: "walk n ?R nid ?q el ?tr2 = Some (r2, el2, tr3)"
    by (metis prod_cases3)
  from Cons.IH[OF rest] obtain y where y: "walk_list n ?R nid fs el2 tr3 = Some y" by blast
  show ?case
  proof (cases "res ?q nid = []")
    case False
    then show ?thesis
      by (simp add: Frame_eq resolveNode_eq static_simps frame_page_def)
  next
    case True
    then have eq: "walk_list n ?R nid (f # fs) el tr =
        (case walk n ?R nid ?q el ?tr2 of
           None \<Rightarrow> None
         | Some (Some err, el', tr3) \<Rightarrow> Some (Some err, el', tr3)
         | Some (None, el', tr3) \<Rightarrow> walk_list n ?R nid fs el' tr3)"
      by (simp add: Frame_eq resolveNode_eq static_simps frame_page_def)
    show ?thesis unfolding eq using w y by (cases r2; cases y) simp_all
  qed
qed

lemma walk_returns:
  "shallow n kids fid p \<Longrightarrow> \<exists>x. walk n (static_remote kids fid res :: ('q, 'v) remote) nid p el tr = Some x"
proof (induction n arbitrary: p el tr)
  case 0
  then show ?case by simp
next
  case (Suc n)
  have "\<And>p el tr. shallow n kids fid p \<Longrightarrow>
      \<exists>x. walk n (static_remote kids fid res :: ('q, 'v) remote) nid p el tr = Some x"
    by (rule Suc.IH)
  moreover from Suc.prems
  have "list_all (\<lambda>f. shallow n kids fid (frame_page fid f)) (kids p)" by simp
  ultimately have "\<exists>x. walk_list n (static_remote kids fid res :: ('q, 'v) remote) nid (kids p) el
      (tr @ [Page_elements p ''iframe'' (Inr (kids p))]) = Some x"
    by (rule walk_list_returns)
  then show ?case by (simp add: Elements_eq static_simps)
qed

lemma ensureParentPage_static:
  assumes "shallow fuel kids fid (page el)"
  shows "\<exists>tr'. ensureParentPage fuel (static_remote kids fid res :: ('q, 'v) remote) nid objID el tr =
      Some (None,
            (case find (\<lambda>q. res q nid \<noteq> '''') (dfs fuel kids fid (page el)) of
               None \<Rightarrow> el
             | Some q \<Rightarrow> Element q (res q nid)),
            tr') \<and>
      probes tr' = probes tr @
        upto_first (\<lambda>q. res q nid \<noteq> '''') (dfs fuel kids fid (page el))"
proof -
  let ?R = "static_remote kids fid res :: ('q, 'v) remote"
  let ?tr1 = "tr @ [Page_hasElement (page el) objID (Inr False)]"
  from walk_returns[OF assms] obtain r el' tr'
    where w: "walk fuel ?R nid (page el) el ?tr1 = Some (r, el', tr')"
    by (metis prod_cases3)
  from walk_static[OF w]
  have p: "probes tr' = probes tr @
        upto_first (\<lambda>q. res q nid \<noteq> '''') (dfs fuel kids fid (page el))"
    and f: "finds res nid (dfs fuel kids fid (page el)) el r el'"
    by (simp_all add: probes_append)
  have "ensureParentPage fuel ?R nid objID el tr =
      Some (None,
            (case find (\<lambda>q. res q nid \<noteq> '''') (dfs fuel kids fid (page el)) of
               None \<Rightarrow> el
             | Some q \<Rightarrow> Element q (res q nid)),
            tr')"
    using w f
    by (auto simp: ensureParentPage_def hasElement_eq static_simps finds_def
        split: option.splits)
  with p show ?thesis by blast
qed

subsection \<open>The claims about the search for the owning page\<close>

text \<open>
  What \<open>ensureParentPage\<close> returns, for every browser. It first asks the element's page
  whether it knows the object: an error of that call is returned, and on a yes nothing
  else happens; both hold whatever the fuel. Otherwise it returns exactly when the search
  below the element's page comes to an outcome, with the events of that search: when the
  node was found, the handle is bound to the page and reference found and no error is
  returned; when the node was not found, no error is returned and the handle is as it
  was; when a call failed, the handle is as it was and the error of the call is returned,
  unless the error is \<open>io.EOF\<close>, for which no error is returned.
\<close>

theorem ensureParentPage_search:
  "((\<exists>fuel. ensureParentPage fuel R nid objID el tr = Some (r, el', tr')) \<longleftrightarrow>
     (case has_of R tr (page el) objID of
        Inl e \<Rightarrow> r = Some e \<and> el' = el \<and>
          tr' = tr @ [Page_hasElement (page el) objID (Inl e)]
      | Inr has \<Rightarrow>
          if has
          then r = None \<and> el' = el \<and> tr' = tr @ [Page_hasElement (page el) objID (Inr True)]
          else (\<exists>new out.
                  searching R nid (page el)
                    (tr @ [Page_hasElement (page el) objID (Inr False)]) new out \<and>
                  tr' = tr @ Page_hasElement (page el) objID (Inr False) # new \<and>
                  (case out of
                     NotFound \<Rightarrow> r = None \<and> el' = el
                   | Found p obj \<Rightarrow> r = None \<and> el' = Element p obj
                   | Failed e \<Rightarrow> r = (if e = EOF then None else Some e) \<and> el' = el)))) \<and>
   (has_of R tr (page el) objID = Inl e \<longrightarrow>
      (\<forall>fuel. ensureParentPage fuel R nid objID el tr =
         Some (Some e, el, tr @ [Page_hasElement (page el) objID (Inl e)]))) \<and>
   (has_of R tr (page el) objID = Inr True \<longrightarrow>
      (\<forall>fuel. ensureParentPage fuel R nid objID el tr =
         Some (None, el, tr @ [Page_hasElement (page el) objID (Inr True)])))"
  (is "(?L \<longleftrightarrow> ?R) \<and> ?E \<and> ?H")
proof (intro conjI)
  show ?E by (simp add: ensureParentPage_def hasElement_eq)
  show ?H by (simp add: ensureParentPage_def hasElement_eq)
  let ?h = "has_of R tr (page el) objID"
  let ?tr1 = "tr @ [Page_hasElement (page el) objID (Inr False)]"
  show "?L \<longleftrightarrow> ?R"
  proof (cases ?h)
    case (Inl e)
    then show ?thesis by (auto simp: ensureParentPage_def hasElement_eq)
  next
    case (Inr has)
    show ?thesis
    proof (cases has)
      case True
      with Inr show ?thesis by (auto simp: ensureParentPage_def hasElement_eq)
    next
      case False
      have run: "ensureParentPage fuel R nid objID el tr =
          (case walk fuel R nid (page el) el ?tr1 of
             None \<Rightarrow> None
           | Some (err, el', tr2) \<Rightarrow>
               if err = Some EOF then Some (None, el', tr2) else Some (err, el', tr2))" for fuel
        using Inr False by (simp add: ensureParentPage_def hasElement_eq)
      have rhs: "?R \<longleftrightarrow> (\<exists>new out. searching R nid (page el) ?tr1 new out \<and>
                  tr' = tr @ Page_hasElement (page el) objID (Inr False) # new \<and>
                  (case out of
                     NotFound \<Rightarrow> r = None \<and> el' = el
                   | Found p obj \<Rightarrow> r = None \<and> el' = Element p obj
                   | Failed e \<Rightarrow> r = (if e = EOF then None else Some e) \<and> el' = el))"
        using Inr False by simp
      show ?thesis unfolding rhs
      proof
        assume ?L
        then obtain fuel where "ensureParentPage fuel R nid objID el tr = Some (r, el', tr')" ..
        then obtain w el2 tr2 where w: "walk fuel R nid (page el) el ?tr1 = Some (w, el2, tr2)"
          and out: "r = (if w = Some EOF then None else w)" "el' = el2" "tr' = tr2"
          unfolding run by (auto split: option.splits if_splits)
        from walk_sound[OF w] obtain new out where new: "tr2 = ?tr1 @ new"
          "searching R nid (page el) ?tr1 new out" "agrees w el el2 out" by blast
        from new(3) out(1,2) have "case out of
                     NotFound \<Rightarrow> r = None \<and> el' = el
                   | Found p obj \<Rightarrow> r = None \<and> el' = Element p obj
                   | Failed e \<Rightarrow> r = (if e = EOF then None else Some e) \<and> el' = el"
          by (auto simp: agrees_def split: search.splits)
        with new(1,2) out(3)
        show "\<exists>new out. searching R nid (page el) ?tr1 new out \<and>
                  tr' = tr @ Page_hasElement (page el) objID (Inr False) # new \<and>
                  (case out of
                     NotFound \<Rightarrow> r = None \<and> el' = el
                   | Found p obj \<Rightarrow> r = None \<and> el' = Element p obj
                   | Failed e \<Rightarrow> r = (if e = EOF then None else Some e) \<and> el' = el)"
          by (intro exI[of _ new] exI[of _ out]) simp
      next
        assume "\<exists>new out. searching R nid (page el) ?tr1 new out \<and>
                  tr' = tr @ Page_hasElement (page el) objID (Inr False) # new \<and>
                  (case out of
                     NotFound \<Rightarrow> r = None \<and> el' = el
                   | Found p obj \<Rightarrow> r = None \<and> el' = Element p obj
                   | Failed e \<Rightarrow> r = (if e = EOF then None else Some e) \<and> el' = el)"
        then obtain new out where s: "searching R nid (page el) ?tr1 new out"
          and tr': "tr' = ?tr1 @ new"
          and res: "case out of
                     NotFound \<Rightarrow> r = None \<and> el' = el
                   | Found p obj \<Rightarrow> r = None \<and> el' = Element p obj
                   | Failed e \<Rightarrow> r = (if e = EOF then None else Some e) \<and> el' = el"
          by auto
        from searching_returns(1)[OF s] obtain n w el2 where
          w: "walk n R nid (page el) el ?tr1 = Some (w, el2, ?tr1 @ new)"
          and a: "agrees w el el2 out" by blast
        from a res have "r = (if w = Some EOF then None else w)" "el' = el2"
          by (auto simp: agrees_def split: search.splits)
        with w tr' have "ensureParentPage n R nid objID el tr = Some (r, el', tr')"
          unfolding run by simp
        then show ?L ..
      qed
    qed
  qed
qed

text \<open>
  Claim C4. A protocol error during the traversal must abort the search and be returned.
  \<open>ensureParentPage\<close> does so for every error but one: when the query for the iframes of
  the page fails with \<open>io.EOF\<close>, the search is aborted, but the error is taken for the
  sentinel by which the closure says that it has found the node, and no error is
  returned. The same failure with another error is returned, and so is an \<open>io.EOF\<close> of the
  check for a known object that precedes the traversal.
\<close>

theorem ensureParentPage_swallows_EOF:
  "ensureParentPage 1 (broken_remote EOF) 7 ''old'' stale [] =
     Some (None, stale,
           [Page_hasElement main_page ''old'' (Inr False),
            Page_elements main_page ''iframe'' (Inl EOF)]) \<and>
   ensureParentPage 1 (broken_remote Canceled) 7 ''old'' stale [] =
     Some (Some Canceled, stale,
           [Page_hasElement main_page ''old'' (Inr False),
            Page_elements main_page ''iframe'' (Inl Canceled)]) \<and>
   ensureParentPage 1 (unknowing_remote EOF) 7 ''old'' stale [] =
     Some (Some EOF, stale, [Page_hasElement main_page ''old'' (Inl EOF)])"
  by code_simp


text \<open>
  Claim C8, as amended. In a frame tree that does not change and nests less deep than
  the fuel, \<open>ensureParentPage\<close> returns without error, and the pages in which it tried to
  resolve the node are the frames in document order, depth first (each iframe, then the
  frames nested in it, then its next sibling), up to and including the first in which
  the node resolves; the handle is bound to that frame.
\<close>

theorem search_is_depth_first:
  assumes "shallow fuel kids fid (page el)"
  shows "\<exists>el' tr'.
      ensureParentPage fuel (static_remote kids fid res :: ('q, 'v) remote) nid objID el tr =
        Some (None, el', tr') \<and>
      probes tr' = probes tr @
        upto_first (\<lambda>q. res q nid \<noteq> '''') (dfs fuel kids fid (page el)) \<and>
      (\<forall>q. find (\<lambda>q. res q nid \<noteq> '''') (dfs fuel kids fid (page el)) = Some q \<longrightarrow>
           el' = Element q (res q nid)) \<and>
      (find (\<lambda>q. res q nid \<noteq> '''') (dfs fuel kids fid (page el)) = None \<longrightarrow> el' = el)"
proof -
  from ensureParentPage_static[OF assms, of res nid objID tr]
  obtain tr' where
    "ensureParentPage fuel (static_remote kids fid res :: ('q, 'v) remote) nid objID el tr =
      Some (None,
            (case find (\<lambda>q. res q nid \<noteq> '''') (dfs fuel kids fid (page el)) of
               None \<Rightarrow> el
             | Some q \<Rightarrow> Element q (res q nid)),
            tr')"
    "probes tr' = probes tr @
        upto_first (\<lambda>q. res q nid \<noteq> '''') (dfs fuel kids fid (page el))"
    by blast
  then show ?thesis
    by (intro exI[of _ "case find (\<lambda>q. res q nid \<noteq> '''') (dfs fuel kids fid (page el)) of
               None \<Rightarrow> el | Some q \<Rightarrow> Element q (res q nid)"] exI[of _ tr']) simp
qed

text \<open>
  In \<open>nested3\<close>, searched from the main page for node 7: the frames tried are \<open>a\<close>, \<open>a1\<close>,
  \<open>b\<close>, \<open>b1\<close> and \<open>t\<close>, in this order, and the handle ends in \<open>t\<close>, three frames down.
\<close>

theorem search_is_depth_first_witness:
  "shallow 4 (tree_kids nested3) ObjectID (page stale) \<and>
   (\<exists>el' tr'. ensureParentPage 4 (tree_remote nested3) 7 ''old'' stale [] =
        Some (None, el', tr') \<and>
      map FrameID (probes tr') = [''a'', ''a1'', ''b'', ''b1'', ''t''] \<and>
      el' = Element deepest_page ''node@t'')"
proof -
  have sh: "shallow 4 (tree_kids nested3) ObjectID (page stale)"
    by code_simp
  have found: "find (\<lambda>q. tree_res nested3 q 7 \<noteq> '''')
      (dfs 4 (tree_kids nested3) ObjectID (page stale)) = Some deepest_page"
    by code_simp
  have ref: "tree_res nested3 deepest_page 7 = ''node@t''"
    by code_simp
  have order: "map FrameID (upto_first (\<lambda>q. tree_res nested3 q 7 \<noteq> '''')
      (dfs 4 (tree_kids nested3) ObjectID (page stale))) = [''a'', ''a1'', ''b'', ''b1'', ''t'']"
    by code_simp
  have "\<exists>el' tr'. ensureParentPage 4 (tree_remote nested3) 7 ''old'' stale [] =
        Some (None, el', tr') \<and>
      probes tr' = probes ([] :: (unit, unit) event list) @ upto_first (\<lambda>q. tree_res nested3 q 7 \<noteq> '''')
        (dfs 4 (tree_kids nested3) ObjectID (page stale)) \<and>
      (\<forall>q. find (\<lambda>q. tree_res nested3 q 7 \<noteq> '''')
             (dfs 4 (tree_kids nested3) ObjectID (page stale)) = Some q \<longrightarrow>
           el' = Element q (tree_res nested3 q 7)) \<and>
      (find (\<lambda>q. tree_res nested3 q 7 \<noteq> '''')
             (dfs 4 (tree_kids nested3) ObjectID (page stale)) = None \<longrightarrow> el' = stale)"
    unfolding tree_remote_def by (rule search_is_depth_first[OF sh])
  then obtain el' and tr' :: "(unit, unit) event list" where
    run: "ensureParentPage 4 (tree_remote nested3) 7 ''old'' stale [] = Some (None, el', tr')"
    and pr: "probes tr' = probes ([] :: (unit, unit) event list) @ upto_first (\<lambda>q. tree_res nested3 q 7 \<noteq> '''')
        (dfs 4 (tree_kids nested3) ObjectID (page stale))"
    and el: "\<forall>q. find (\<lambda>q. tree_res nested3 q 7 \<noteq> '''')
             (dfs 4 (tree_kids nested3) ObjectID (page stale)) = Some q \<longrightarrow>
           el' = Element q (tree_res nested3 q 7)"
    by (elim exE conjE)
  from el found ref have el': "el' = Element deepest_page ''node@t''" by simp
  from pr have visits: "map FrameID (probes tr') = [''a'', ''a1'', ''b'', ''b1'', ''t'']"
    using order by simp
  show ?thesis
    by (intro conjI exI[of _ el'] exI[of _ tr'] sh run visits el')
qed

text \<open>
  Claim C8 as stated fails on the order. In \<open>nested3\<close> the iframes \<open>a\<close> and \<open>b\<close> are
  siblings and \<open>a1\<close> is nested in \<open>a\<close>; the search tries \<open>a1\<close> before \<open>b\<close>, so a sibling is
  not visited before the frames nested in the siblings before it.
\<close>

theorem search_order_counterexample:
  "visited (ensureParentPage 4 (tree_remote nested3) 7 ''old'' stale []) =
     [''a'', ''a1'', ''b'', ''b1'', ''t''] \<and>
   map frame_name (subframes nested3) = [''a'', ''b''] \<and>
   map frame_name (concat (map subframes (subframes nested3))) = [''a1'', ''b1'']"
  by code_simp

subsection \<open>The claims about interactability and removal\<close>

text \<open>
  Claim C3. \<open>Interactable\<close> first fetches the shape. When the shape is empty, a \<open>nil\<close>
  slice or a slice of no quads, it fails with the not-interactable error about the
  element having no visible shape, and the fetch is the only call made. When the shape is not empty and the calls that follow succeed,
  it reads the scroll offset on the root page, asks the element's page for the element
  at the centre of the first quad moved by that offset, and evaluates the containment
  helper on the element with the element found as argument: it returns the shape with
  no error when the helper says yes, and with the not-interactable error that carries
  the element found when it says no. These four calls are all it makes.
\<close>

theorem Interactable_hit_test:
  "(\<exists>rest. snd (Interactable R tr el) = tr @ DOM_getContentQuads el (quads_of R tr el) # rest) \<and>
   (quads_of R tr el = Inr s \<and> (s = NilSlice \<or> s = Slice []) \<longrightarrow>
      Interactable R tr el =
        ((s, Some (ErrNotInteractable el ''element has no visible shape'')),
         tr @ [DOM_getContentQuads el (Inr s)])) \<and>
   (quads_of R tr el = Inr (Slice (q # qs)) \<and>
    tr1 = tr @ [DOM_getContentQuads el (Inr (Slice (q # qs)))] \<and>
    eval_of R tr1 (Root R (page el)) '''' (Code ''{ x: window.scrollX, y: window.scrollY }'') []
      = Inr scroll \<and>
    tr2 = tr1 @ [Runtime_evaluate (Root R (page el)) ''''
                   (Code ''{ x: window.scrollX, y: window.scrollY }'') [] (Inr scroll)] \<and>
    x = CenterX R q + GetInt R scroll ''x'' \<and> y = CenterY R q + GetInt R scroll ''y'' \<and>
    hit_of R tr2 (page el) x y = Inr elAtPoint \<and>
    tr3 = tr2 @ [Page_elementFromPoint (page el) x y (Inr elAtPoint)] \<and>
    eval_of R tr3 (page el) (ObjectID el) (Helper ''ContainsElement'') [ObjectID elAtPoint]
      = Inr res \<and>
    tr4 = tr3 @ [Runtime_evaluate (page el) (ObjectID el) (Helper ''ContainsElement'')
                   [ObjectID elAtPoint] (Inr res)]
    \<longrightarrow>
      Interactable R tr el =
        ((Slice (q # qs),
          if Bool R res then None
          else Some (ErrNotInteractable elAtPoint ''another element covers current one'')),
         tr4))"
proof (intro conjI impI)
  show "\<exists>rest. snd (Interactable R tr el) = tr @ DOM_getContentQuads el (quads_of R tr el) # rest"
    by (auto simp: Interactable_def Shape_eq Page_Eval_eq ElementFromPoint_eq
        ContainsElement_def EvalWithOptions_eq split: sum.splits)
next
  assume "quads_of R tr el = Inr s \<and> (s = NilSlice \<or> s = Slice [])"
  then show "Interactable R tr el =
        ((s, Some (ErrNotInteractable el ''element has no visible shape'')),
         tr @ [DOM_getContentQuads el (Inr s)])"
    by (auto simp: Interactable_def Shape_eq len_def)
next
  assume "quads_of R tr el = Inr (Slice (q # qs)) \<and>
    tr1 = tr @ [DOM_getContentQuads el (Inr (Slice (q # qs)))] \<and>
    eval_of R tr1 (Root R (page el)) '''' (Code ''{ x: window.scrollX, y: window.scrollY }'') []
      = Inr scroll \<and>
    tr2 = tr1 @ [Runtime_evaluate (Root R (page el)) ''''
                   (Code ''{ x: window.scrollX, y: window.scrollY }'') [] (Inr scroll)] \<and>
    x = CenterX R q + GetInt R scroll ''x'' \<and> y = CenterY R q + GetInt R scroll ''y'' \<and>
    hit_of R tr2 (page el) x y = Inr elAtPoint \<and>
    tr3 = tr2 @ [Page_elementFromPoint (page el) x y (Inr elAtPoint)] \<and>
    eval_of R tr3 (page el) (ObjectID el) (Helper ''ContainsElement'') [ObjectID elAtPoint]
      = Inr res \<and>
    tr4 = tr3 @ [Runtime_evaluate (page el) (ObjectID el) (Helper ''ContainsElement'')
                   [ObjectID elAtPoint] (Inr res)]"
  then show "Interactable R tr el =
        ((Slice (q # qs),
          if Bool R res then None
          else Some (ErrNotInteractable elAtPoint ''another element covers current one'')),
         tr4)"
    by (elim conjE, hypsubst)
       (simp add: Interactable_def Shape_eq Page_Eval_eq ElementFromPoint_eq
          ContainsElement_def EvalWithOptions_eq len_def)
qed

text \<open>
  A button with one quad centred at \<open>(100, 50)\<close> on a page scrolled by \<open>(10, 20)\<close>, under an
  overlay: the hit test is made at \<open>(110, 70)\<close>, finds the overlay, and the error names it. A
  button with no quad fails after the one call, and so does one whose shape is \<open>nil\<close>.
\<close>

theorem Interactable_hit_test_witness:
  "quads_of (demo_remote (\<lambda>tr. Slice [(100, 50)]) overlay False (\<lambda>tr. True) (\<lambda>tr. None)) [] submit
     = Inr (Slice [(100, 50)]) \<and>
   Interactable (demo_remote (\<lambda>tr. Slice [(100, 50)]) overlay False (\<lambda>tr. True) (\<lambda>tr. None)) [] submit =
     ((Slice [(100, 50)], Some (ErrNotInteractable overlay ''another element covers current one'')),
      [DOM_getContentQuads submit (Inr (Slice [(100, 50)])),
       Runtime_evaluate main_page '''' (Code ''{ x: window.scrollX, y: window.scrollY }'') []
         (Inr (False, 10, 20)),
       Page_elementFromPoint main_page 110 70 (Inr overlay),
       Runtime_evaluate main_page ''submit'' (Helper ''ContainsElement'') [''overlay'']
         (Inr (False, 0, 0))]) \<and>
   quads_of (demo_remote (\<lambda>tr. Slice []) overlay False (\<lambda>tr. True) (\<lambda>tr. None)) [] submit = Inr (Slice []) \<and>
   Interactable (demo_remote (\<lambda>tr. Slice []) overlay False (\<lambda>tr. True) (\<lambda>tr. None)) [] submit =
     ((Slice [], Some (ErrNotInteractable submit ''element has no visible shape'')),
      [DOM_getContentQuads submit (Inr (Slice []))]) \<and>
   quads_of (demo_remote (\<lambda>tr. NilSlice) overlay False (\<lambda>tr. True) (\<lambda>tr. None)) [] submit
     = Inr NilSlice \<and>
   Interactable (demo_remote (\<lambda>tr. NilSlice) overlay False (\<lambda>tr. True) (\<lambda>tr. None)) [] submit =
     ((NilSlice, Some (ErrNotInteractable submit ''element has no visible shape'')),
      [DOM_getContentQuads submit (Inr NilSlice)])"
proof -
  let ?N = "demo_remote (\<lambda>tr. NilSlice) overlay False (\<lambda>tr. True) (\<lambda>tr. None)"
  let ?R = "demo_remote (\<lambda>tr. Slice [(100, 50)]) overlay False (\<lambda>tr. True) (\<lambda>tr. None)"
  let ?E = "demo_remote (\<lambda>tr. Slice []) overlay False (\<lambda>tr. True) (\<lambda>tr. None)"
  let ?scroll = "(False, 10, 20) :: bool \<times> int64 \<times> int64"
  let ?res = "(False, 0, 0) :: bool \<times> int64 \<times> int64"
  let ?tr1 = "[DOM_getContentQuads submit (Inr (Slice [(100, 50)]))] :: demo_event list"
  let ?tr2 = "?tr1 @ [Runtime_evaluate main_page ''''
      (Code ''{ x: window.scrollX, y: window.scrollY }'') [] (Inr ?scroll)]"
  let ?tr3 = "?tr2 @ [Page_elementFromPoint main_page 110 70 (Inr overlay)]"
  let ?tr4 = "?tr3 @ [Runtime_evaluate main_page ''submit'' (Helper ''ContainsElement'')
      [''overlay''] (Inr ?res)]"
  have q: "quads_of ?R [] submit = Inr (Slice [(100, 50)])"
    and e: "quads_of ?E [] submit = Inr (Slice [])"
    and n: "quads_of ?N [] submit = Inr NilSlice"
    by (simp_all add: demo_remote_def)
  have hyps: "quads_of ?R [] submit = Inr (Slice [(100, 50)]) \<and>
    ?tr1 = [] @ [DOM_getContentQuads submit (Inr (Slice [(100, 50)]))] \<and>
    eval_of ?R ?tr1 (Root ?R (page submit)) ''''
      (Code ''{ x: window.scrollX, y: window.scrollY }'') [] = Inr ?scroll \<and>
    ?tr2 = ?tr1 @ [Runtime_evaluate (Root ?R (page submit)) ''''
                   (Code ''{ x: window.scrollX, y: window.scrollY }'') [] (Inr ?scroll)] \<and>
    (110 :: int64) = CenterX ?R (100, 50) + GetInt ?R ?scroll ''x'' \<and>
    (70 :: int64) = CenterY ?R (100, 50) + GetInt ?R ?scroll ''y'' \<and>
    hit_of ?R ?tr2 (page submit) 110 70 = Inr overlay \<and>
    ?tr3 = ?tr2 @ [Page_elementFromPoint (page submit) 110 70 (Inr overlay)] \<and>
    eval_of ?R ?tr3 (page submit) (ObjectID submit) (Helper ''ContainsElement'')
      [ObjectID overlay] = Inr ?res \<and>
    ?tr4 = ?tr3 @ [Runtime_evaluate (page submit) (ObjectID submit) (Helper ''ContainsElement'')
                   [ObjectID overlay] (Inr ?res)]"
    by (simp add: demo_remote_def submit_def overlay_def)
  from Interactable_hit_test[where R = ?R and tr = "[]" and el = submit and q = "(100, 50)"
      and qs = "[]" and scroll = ?scroll and x = 110 and y = 70 and elAtPoint = overlay
      and res = ?res and ?tr1.0 = ?tr1 and ?tr2.0 = ?tr2 and ?tr3.0 = ?tr3 and ?tr4.0 = ?tr4,
      THEN conjunct2, THEN conjunct2, THEN mp, OF hyps]
  have covered: "Interactable ?R [] submit =
     ((Slice [(100, 50)], Some (ErrNotInteractable overlay ''another element covers current one'')), ?tr4)"
    by (simp add: demo_remote_def)
  from Interactable_hit_test[where R = ?E and tr = "[]" and el = submit and s = "Slice []",
      THEN conjunct2, THEN conjunct1, THEN mp, OF conjI[OF e disjI2[OF refl]]]
  have empty: "Interactable ?E [] submit =
     ((Slice [], Some (ErrNotInteractable submit ''element has no visible shape'')),
      [DOM_getContentQuads submit (Inr (Slice []))])"
    by simp
  from Interactable_hit_test[where R = ?N and tr = "[]" and el = submit and s = NilSlice,
      THEN conjunct2, THEN conjunct1, THEN mp, OF conjI[OF n disjI1[OF refl]]]
  have nil: "Interactable ?N [] submit =
     ((NilSlice, Some (ErrNotInteractable submit ''element has no visible shape'')),
      [DOM_getContentQuads submit (Inr NilSlice)])"
    by simp
  from covered have covered': "Interactable ?R [] submit =
     ((Slice [(100, 50)], Some (ErrNotInteractable overlay ''another element covers current one'')),
      [DOM_getContentQuads submit (Inr (Slice [(100, 50)])),
       Runtime_evaluate main_page '''' (Code ''{ x: window.scrollX, y: window.scrollY }'') []
         (Inr (False, 10, 20)),
       Page_elementFromPoint main_page 110 70 (Inr overlay),
       Runtime_evaluate main_page ''submit'' (Helper ''ContainsElement'') [''overlay'']
         (Inr (False, 0, 0))])"
    by simp
  show ?thesis by (intro conjI q covered' e empty n nil)
qed

text \<open>
  Claim C10. \<open>Remove\<close> evaluates the removal script on the element first. When the
  evaluation fails, \<open>Remove\<close> returns its error and the evaluation is the only call made:
  the object reference is not released. When it succeeds, \<open>Remove\<close> is the \<open>Release\<close> that
  follows, one release call whose result is returned.
\<close>

theorem Remove_then_Release:
  "(eval_of R tr (page el) (ObjectID el) (Code ''this.remove()'') [] = Inl e \<longrightarrow>
      Remove R tr el =
        (Some e, tr @ [Runtime_evaluate (page el) (ObjectID el) (Code ''this.remove()'') []
                         (Inl e)])) \<and>
   (eval_of R tr (page el) (ObjectID el) (Code ''this.remove()'') [] = Inr v \<and>
    tr1 = tr @ [Runtime_evaluate (page el) (ObjectID el) (Code ''this.remove()'') [] (Inr v)]
    \<longrightarrow>
      Remove R tr el = Release R tr1 el \<and>
      Remove R tr el =
        (release_of R tr1 (page el) (ObjectID el),
         tr1 @ [Runtime_release (page el) (ObjectID el)
                  (release_of R tr1 (page el) (ObjectID el))]))"
  by (simp add: Remove_def Eval_def EvalWithOptions_eq Release_eq)

text \<open>
  On a page that evaluates no script the removal fails and nothing is released; on one
  that does, the release follows the removal.
\<close>

theorem Remove_then_Release_witness:
  "eval_of (broken_remote Canceled) [] (page stale) (ObjectID stale) (Code ''this.remove()'') []
     = Inl (ProtocolError ''no script'') \<and>
   Remove (broken_remote Canceled) [] stale =
     (Some (ProtocolError ''no script''),
      [Runtime_evaluate main_page ''old'' (Code ''this.remove()'') []
         (Inl (ProtocolError ''no script''))]) \<and>
   eval_of (demo_remote (\<lambda>tr. Slice []) overlay False (\<lambda>tr. True) (\<lambda>tr. None)) [] (page submit)
       (ObjectID submit) (Code ''this.remove()'') []
     = Inr (False, 10, 20) \<and>
   Remove (demo_remote (\<lambda>tr. Slice []) overlay False (\<lambda>tr. True) (\<lambda>tr. None)) [] submit =
     (None,
      [Runtime_evaluate main_page ''submit'' (Code ''this.remove()'') [] (Inr (False, 10, 20)),
       Runtime_release main_page ''submit'' None])"
proof -
  let ?D = "demo_remote (\<lambda>tr. Slice []) overlay False (\<lambda>tr. True) (\<lambda>tr. None)"
  have bad: "eval_of (broken_remote Canceled) [] (page stale) (ObjectID stale)
      (Code ''this.remove()'') [] = Inl (ProtocolError ''no script'')"
    by (simp add: broken_remote_def static_remote_def)
  have good: "eval_of ?D [] (page submit) (ObjectID submit) (Code ''this.remove()'') []
     = Inr (False, 10, 20) \<and>
     [Runtime_evaluate main_page ''submit'' (Code ''this.remove()'') [] (Inr (False, 10, 20))]
     = [] @ [Runtime_evaluate (page submit) (ObjectID submit) (Code ''this.remove()'') []
         (Inr (False, 10, 20)) :: demo_event]"
    by (simp add: demo_remote_def submit_def)
  from Remove_then_Release[where R = "broken_remote Canceled" and tr = "[]" and el = stale,
      THEN conjunct1, THEN mp, OF bad]
  have failed: "Remove (broken_remote Canceled) [] stale =
     (Some (ProtocolError ''no script''),
      [Runtime_evaluate main_page ''old'' (Code ''this.remove()'') []
         (Inl (ProtocolError ''no script''))])"
    by (simp add: stale_def)
  from Remove_then_Release[where R = ?D and tr = "[]" and el = submit,
      THEN conjunct2, THEN mp, OF good, THEN conjunct2]
  have released: "Remove ?D [] submit =
     (None,
      [Runtime_evaluate main_page ''submit'' (Code ''this.remove()'') [] (Inr (False, 10, 20)),
       Runtime_release main_page ''submit'' None])"
    by (simp add: demo_remote_def submit_def)
  from good have good': "eval_of ?D [] (page submit) (ObjectID submit) (Code ''this.remove()'') []
     = Inr (False, 10, 20)" ..
  show ?thesis by (intro conjI bad failed good' released)
qed

subsection \<open>Waiting for a stable shape\<close>

lemma DeepEqual_identical: "DeepEqual R a b = identical R a b"
proof (cases a; cases b)
  fix xs ys
  assume "a = Slice xs" "b = Slice ys"
  then show ?thesis
    by (auto simp: DeepEqual_def len_def list_all_iff list_all2_conv_all_nth)
qed (simp_all add: DeepEqual_def len_def)

lemma Retry_mono: "Retry n R fn tr = Some x \<Longrightarrow> Retry (n + k) R fn tr = Some x"
proof (induction n arbitrary: tr)
  case 0
  then show ?case by simp
next
  case (Suc n)
  then show ?case
    by (auto simp: Let_def split: prod.splits if_splits option.splits)
qed

lemma stable_loop_mono:
  "stable_loop n R el t s tr = Some x \<Longrightarrow> stable_loop (n + k) R el t s tr = Some x"
proof (induction n arbitrary: s tr)
  case 0
  then show ?case by simp
next
  case (Suc n)
  then show ?case
    by (auto simp: Let_def split: prod.splits if_splits option.splits sum.splits)
qed

lemma WaitVisible_mono:
  "WaitVisible n R el tr = Some x \<Longrightarrow> WaitVisible (n + k) R el tr = Some x"
  unfolding WaitVisible_def Wait_def by (rule Retry_mono)

text \<open>One round of \<open>WaitVisible\<close>.\<close>

lemma WaitVisible_Suc:
  "WaitVisible (Suc n) R el tr =
     (case eval_of R tr (page el) (ObjectID el) (Helper ''Visible'') [] of
        Inl e \<Rightarrow> Some (Some e,
          tr @ [Runtime_evaluate (page el) (ObjectID el) (Helper ''Visible'') [] (Inl e)])
      | Inr v \<Rightarrow>
          if Bool R v
          then Some (None,
            tr @ [Runtime_evaluate (page el) (ObjectID el) (Helper ''Visible'') [] (Inr v)])
          else
            (case sleep_of R (tr @ [Runtime_evaluate (page el) (ObjectID el)
                                      (Helper ''Visible'') [] (Inr v)]) of
               Some e \<Rightarrow> Some (Some e,
                 tr @ [Runtime_evaluate (page el) (ObjectID el) (Helper ''Visible'') [] (Inr v),
                       Sleeper (Some e)])
             | None \<Rightarrow> WaitVisible n R el
                 (tr @ [Runtime_evaluate (page el) (ObjectID el) (Helper ''Visible'') [] (Inr v),
                        Sleeper None])))"
  by (simp add: WaitVisible_def Wait_def Eval_def EvalWithOptions_eq Let_def
      split: sum.splits option.splits)

lemma WaitVisible_0: "WaitVisible 0 R el tr = None"
  by (simp add: WaitVisible_def Wait_def)

text \<open>Every return of the wait for visibility is a wait as described, and conversely.\<close>

lemma WaitVisible_sound:
  "WaitVisible n R el tr = Some (r, tr') \<Longrightarrow> \<exists>w. tr' = tr @ w \<and> waiting R el tr w r"
proof (induction n arbitrary: tr)
  case 0
  then show ?case by (simp add: WaitVisible_0)
next
  case (Suc n)
  let ?ev = "Runtime_evaluate (page el) (ObjectID el) (Helper ''Visible'') []"
  show ?case
  proof (cases "eval_of R tr (page el) (ObjectID el) (Helper ''Visible'') []")
    case (Inl e)
    with Suc.prems have "r = Some e" "tr' = tr @ [?ev (Inl e)]"
      by (auto simp: WaitVisible_Suc)
    with Inl show ?thesis
      by (intro exI[of _ "[?ev (Inl e)]"]) (simp add: waiting.eval_failed)
  next
    case (Inr v)
    show ?thesis
    proof (cases "Bool R v")
      case True
      with Suc.prems Inr have "r = None" "tr' = tr @ [?ev (Inr v)]"
        by (auto simp: WaitVisible_Suc)
      with Inr True show ?thesis
        by (intro exI[of _ "[?ev (Inr v)]"]) (simp add: waiting.visible)
    next
      case False
      show ?thesis
      proof (cases "sleep_of R (tr @ [?ev (Inr v)])")
        case (Some e)
        with Suc.prems Inr False have "r = Some e" "tr' = tr @ [?ev (Inr v), Sleeper (Some e)]"
          by (auto simp: WaitVisible_Suc)
        with Inr False Some show ?thesis
          by (intro exI[of _ "[?ev (Inr v), Sleeper (Some e)]"])
             (simp add: waiting.sleep_failed)
      next
        case None
        with Suc.prems Inr False
        have "WaitVisible n R el (tr @ [?ev (Inr v), Sleeper None]) = Some (r, tr')"
          by (simp add: WaitVisible_Suc)
        from Suc.IH[OF this] obtain rest where rest: "tr' = (tr @ [?ev (Inr v), Sleeper None]) @ rest"
          "waiting R el (tr @ [?ev (Inr v), Sleeper None]) rest r" by blast
        from waiting.hidden[OF Inr False None rest(2)] rest(1) show ?thesis
          by (intro exI[of _ "?ev (Inr v) # Sleeper None # rest"]) simp
      qed
    qed
  qed
qed

lemma waiting_returns:
  "waiting R el tr w r \<Longrightarrow> \<exists>n. WaitVisible n R el tr = Some (r, tr @ w)"
proof (induction rule: waiting.induct)
  case (eval_failed R tr el e)
  then show ?case by (intro exI[of _ "Suc 0"]) (simp add: WaitVisible_Suc)
next
  case (visible R tr el v)
  then show ?case by (intro exI[of _ "Suc 0"]) (simp add: WaitVisible_Suc)
next
  case (sleep_failed R tr el v e)
  then show ?case by (intro exI[of _ "Suc 0"]) (simp add: WaitVisible_Suc)
next
  case (hidden R tr el v rest r)
  then obtain n where "WaitVisible n R el
      (tr @ [Runtime_evaluate (page el) (ObjectID el) (Helper ''Visible'') [] (Inr v),
             Sleeper None]) =
      Some (r, (tr @ [Runtime_evaluate (page el) (ObjectID el) (Helper ''Visible'') [] (Inr v),
             Sleeper None]) @ rest)"
    by blast
  with hidden.hyps show ?case
    by (intro exI[of _ "Suc n"]) (simp add: WaitVisible_Suc)
qed

text \<open>
  A wait for visibility is a run of evaluations that answered false, each followed by a
  sleep, and then a failed evaluation, an evaluation that answered true, or an
  evaluation that answered false and a sleep cut short.
\<close>

lemma waiting_form:
  "waiting R el tr w r \<Longrightarrow>
   \<exists>vs ending. w = slept_evaluations el vs @ ending \<and> list_all (\<lambda>v. \<not> Bool R v) vs \<and>
     (case r of
        None \<Rightarrow> \<exists>v. Bool R v \<and>
          ending = [Runtime_evaluate (page el) (ObjectID el) (Helper ''Visible'') [] (Inr v)]
      | Some e \<Rightarrow>
          ending = [Runtime_evaluate (page el) (ObjectID el) (Helper ''Visible'') [] (Inl e)] \<or>
          (\<exists>v. \<not> Bool R v \<and>
             ending = [Runtime_evaluate (page el) (ObjectID el) (Helper ''Visible'') [] (Inr v),
                       Sleeper (Some e)]))"
proof (induction rule: waiting.induct)
  case (eval_failed R tr el e)
  show ?case
    by (rule exI[of _ "[]"], rule exI[of _ "[Runtime_evaluate (page el) (ObjectID el)
          (Helper ''Visible'') [] (Inl e)]"]) (simp add: slept_evaluations_def)
next
  case (visible R tr el v)
  then show ?case
    by (intro exI[of _ "[]"] exI[of _ "[Runtime_evaluate (page el) (ObjectID el)
          (Helper ''Visible'') [] (Inr v)]"]) (simp add: slept_evaluations_def)
next
  case (sleep_failed R tr el v e)
  then show ?case
    by (intro exI[of _ "[]"] exI[of _ "[Runtime_evaluate (page el) (ObjectID el)
          (Helper ''Visible'') [] (Inr v), Sleeper (Some e)]"]) (simp add: slept_evaluations_def)
next
  case (hidden R tr el v rest r)
  from hidden.IH obtain vs ending where
    rest: "rest = slept_evaluations el vs @ ending" and all: "list_all (\<lambda>v. \<not> Bool R v) vs"
    and ending: "case r of
        None \<Rightarrow> \<exists>v. Bool R v \<and>
          ending = [Runtime_evaluate (page el) (ObjectID el) (Helper ''Visible'') [] (Inr v)]
      | Some e \<Rightarrow>
          ending = [Runtime_evaluate (page el) (ObjectID el) (Helper ''Visible'') [] (Inl e)] \<or>
          (\<exists>v. \<not> Bool R v \<and>
             ending = [Runtime_evaluate (page el) (ObjectID el) (Helper ''Visible'') [] (Inr v),
                       Sleeper (Some e)])"
    by blast
  have "Runtime_evaluate (page el) (ObjectID el) (Helper ''Visible'') [] (Inr v)
          # Sleeper None # rest = slept_evaluations el (v # vs) @ ending"
    by (simp add: rest slept_evaluations_def)
  moreover have "list_all (\<lambda>v. \<not> Bool R v) (v # vs)"
    using all hidden.hyps by simp
  ultimately show ?case using ending
    by (intro exI[of _ "v # vs"] exI[of _ ending] conjI)
qed

text \<open>Every return of the loop is a run of sampling rounds, and every such run a return.\<close>

lemma stable_loop_sound:
  "stable_loop n R el t s tr = Some (r, tr') \<Longrightarrow>
   \<exists>rounds. tr' = tr @ rounds \<and> sampling R el t s tr rounds r"
proof (induction n arbitrary: s tr)
  case 0
  then show ?case by simp
next
  case (Suc n)
  show ?case
  proof (cases "select_of R tr t")
    case (Some e)
    with Suc.prems have "r = Some e" "tr' = tr @ [Select_tick t (Some e)]"
      by (auto simp: Let_def)
    with Some show ?thesis
      by (intro exI[of _ "[Select_tick t (Some e)]"]) (simp add: sampling.cancelled)
  next
    case None
    let ?tr1 = "tr @ [Select_tick t None]"
    show ?thesis
    proof (cases "quads_of R ?tr1 el")
      case (Inl e)
      with Suc.prems None have "r = Some e"
        "tr' = tr @ [Select_tick t None, DOM_getContentQuads el (Inl e)]"
        by (auto simp: Let_def Shape_eq)
      with None Inl show ?thesis
        by (intro exI[of _ "[Select_tick t None, DOM_getContentQuads el (Inl e)]"])
           (simp add: sampling.sample_failed)
    next
      case (Inr s')
      let ?tr2 = "tr @ [Select_tick t None, DOM_getContentQuads el (Inr s')]"
      show ?thesis
      proof (cases "identical R s s'")
        case True
        with Suc.prems None Inr have "r = None" "tr' = ?tr2"
          by (auto simp: Let_def Shape_eq DeepEqual_identical)
        with None Inr True show ?thesis
          by (intro exI[of _ "[Select_tick t None, DOM_getContentQuads el (Inr s')]"])
             (simp add: sampling.settled)
      next
        case False
        with Suc.prems None Inr have "stable_loop n R el t s' ?tr2 = Some (r, tr')"
          by (simp add: Let_def Shape_eq DeepEqual_identical)
        from Suc.IH[OF this] obtain rest where rest: "tr' = ?tr2 @ rest"
          "sampling R el t s' ?tr2 rest r" by blast
        from sampling.moving[OF None Inr False rest(2)]
        have "sampling R el t s tr
            (Select_tick t None # DOM_getContentQuads el (Inr s') # rest) r" .
        with rest(1) show ?thesis
          by (intro exI[of _ "Select_tick t None # DOM_getContentQuads el (Inr s') # rest"]) simp
      qed
    qed
  qed
qed

lemma sampling_returns:
  "sampling R el t s tr rounds r \<Longrightarrow> \<exists>n. stable_loop n R el t s tr = Some (r, tr @ rounds)"
proof (induction rule: sampling.induct)
  case (cancelled R tr t e el s)
  then show ?case by (intro exI[of _ "Suc 0"]) (simp add: Let_def)
next
  case (sample_failed R tr t el e s)
  then show ?case by (intro exI[of _ "Suc 0"]) (simp add: Let_def Shape_eq)
next
  case (settled R tr t el s' s)
  then show ?case by (intro exI[of _ "Suc 0"]) (simp add: Let_def Shape_eq DeepEqual_identical)
next
  case (moving R tr t el s' s rest r)
  then obtain n where "stable_loop n R el t s'
      (tr @ [Select_tick t None, DOM_getContentQuads el (Inr s')]) =
      Some (r, (tr @ [Select_tick t None, DOM_getContentQuads el (Inr s')]) @ rest)"
    by blast
  with moving.hyps show ?case
    by (intro exI[of _ "Suc n"]) (simp add: Let_def Shape_eq DeepEqual_identical)
qed

lemma consecutive_Nil: "consecutive s [] = []"
  by (simp add: consecutive_def)

lemma consecutive_Cons: "consecutive s (s' # ss) = (s, s') # consecutive s' ss"
  by (simp add: consecutive_def)

lemma consecutive_empty: "consecutive s ss = [] \<longleftrightarrow> ss = []"
  by (cases ss) (simp_all add: consecutive_def)

text \<open>
  A run of sampling rounds is a run of samples, one tick before each, of which no two
  consecutive ones are identical but, when the run ends in success, the last two; a run
  that ends in an error ends with the cancellation found at a tick or with a tick and
  the failed sample.
\<close>

lemma sampling_form:
  "sampling R el t s tr rounds r \<Longrightarrow>
   \<exists>ss ending. rounds = ticked_samples el t ss @ ending \<and>
     (case r of
        None \<Rightarrow> ending = [] \<and> ss \<noteq> [] \<and>
          list_all (\<lambda>(a, b). \<not> identical R a b) (butlast (consecutive s ss)) \<and>
          (case last (consecutive s ss) of (a, b) \<Rightarrow> identical R a b)
      | Some e \<Rightarrow>
          list_all (\<lambda>(a, b). \<not> identical R a b) (consecutive s ss) \<and>
          (ending = [Select_tick t (Some e)] \<or>
           ending = [Select_tick t None, DOM_getContentQuads el (Inl e)]))"
proof (induction rule: sampling.induct)
  case (cancelled R tr t e el s)
  show ?case
    by (rule exI[of _ "[]"], rule exI[of _ "[Select_tick t (Some e)]"])
       (simp add: ticked_samples_def consecutive_Nil)
next
  case (sample_failed R tr t el e s)
  show ?case
    by (rule exI[of _ "[]"],
        rule exI[of _ "[Select_tick t None, DOM_getContentQuads el (Inl e)]"])
       (simp add: ticked_samples_def consecutive_Nil)
next
  case (settled R tr t el s' s)
  then show ?case
    by (intro exI[of _ "[s']"] exI[of _ "[]"])
       (simp add: ticked_samples_def consecutive_Cons consecutive_Nil)
next
  case (moving R tr t el s' s rest r)
  from moving.IH obtain ss ending where
    rest: "rest = ticked_samples el t ss @ ending"
    and form: "case r of
        None \<Rightarrow> ending = [] \<and> ss \<noteq> [] \<and>
          list_all (\<lambda>(a, b). \<not> identical R a b) (butlast (consecutive s' ss)) \<and>
          (case last (consecutive s' ss) of (a, b) \<Rightarrow> identical R a b)
      | Some e \<Rightarrow>
          list_all (\<lambda>(a, b). \<not> identical R a b) (consecutive s' ss) \<and>
          (ending = [Select_tick t (Some e)] \<or>
           ending = [Select_tick t None, DOM_getContentQuads el (Inl e)])"
    by blast
  have ev: "Select_tick t None # DOM_getContentQuads el (Inr s') # rest =
      ticked_samples el t (s' # ss) @ ending"
    by (simp add: rest ticked_samples_def)
  have "case r of
        None \<Rightarrow> ending = [] \<and> s' # ss \<noteq> [] \<and>
          list_all (\<lambda>(a, b). \<not> identical R a b) (butlast (consecutive s (s' # ss))) \<and>
          (case last (consecutive s (s' # ss)) of (a, b) \<Rightarrow> identical R a b)
      | Some e \<Rightarrow>
          list_all (\<lambda>(a, b). \<not> identical R a b) (consecutive s (s' # ss)) \<and>
          (ending = [Select_tick t (Some e)] \<or>
           ending = [Select_tick t None, DOM_getContentQuads el (Inl e)])"
  proof (cases r)
    case None
    with form have "ss \<noteq> []" by simp
    then have "consecutive s' ss \<noteq> []" by (simp add: consecutive_empty)
    with form None moving.hyps(3) show ?thesis
      by (simp add: consecutive_Cons)
  next
    case (Some e)
    with form moving.hyps(3) show ?thesis
      by (simp add: consecutive_Cons)
  qed
  with ev show ?case
    by (intro exI[of _ "s' # ss"] exI[of _ ending] conjI)
qed

text \<open>
  Claim C7. \<open>WaitStable\<close> returns exactly as follows. It first waits for visibility: it
  evaluates the visibility helper on the element, sleeping after each answer of false,
  until the helper answers true; a failed evaluation or a sleep cut short by the
  cancellation ends the call with that error, before any sample. Then it samples the
  shape once, returning a sampling error at once, creates one ticker whose period is the
  given interval (and panics when the interval is not positive), and goes through
  sampling rounds, each of one wait on the \<open>select\<close> of that ticker and the cancellation
  followed by one sample: the cancellation error ends the rounds when the \<open>select\<close>
  yields it, a sampling error ends them at once, a sample structurally identical to the
  previous sample ends them with success, and a differing sample starts another round.
  The ticker is stopped at the end. So the events after the first sample are the samples,
  each with one tick of the ticker of the given interval before it and nothing else: no
  sleep of the backoff policy separates two samples. A success comes only when the last
  two samples, one tick apart, are identical, and no two consecutive samples before them
  are; a call that ends in an error has met no two consecutive samples that are
  identical. What a tick of the ticker lasts on the clock is the Go runtime's matter.
\<close>

theorem WaitStable_samples:
  "(\<exists>fuel. WaitStable fuel R el interval tr = Some (out, tr')) \<longleftrightarrow>
   (\<exists>w r1. waiting R el tr w r1 \<and>
      (\<exists>vs ending. w = slept_evaluations el vs @ ending \<and> list_all (\<lambda>v. \<not> Bool R v) vs \<and>
         (case r1 of
            None \<Rightarrow> \<exists>v. Bool R v \<and>
              ending = [Runtime_evaluate (page el) (ObjectID el) (Helper ''Visible'') [] (Inr v)]
          | Some e \<Rightarrow>
              ending = [Runtime_evaluate (page el) (ObjectID el) (Helper ''Visible'') []
                          (Inl e)] \<or>
              (\<exists>v. \<not> Bool R v \<and>
                 ending = [Runtime_evaluate (page el) (ObjectID el) (Helper ''Visible'') []
                             (Inr v),
                           Sleeper (Some e)]))) \<and>
      (case r1 of
         Some e \<Rightarrow> out = Returned (Some e) \<and> tr' = tr @ w
       | None \<Rightarrow>
          (case quads_of R (tr @ w) el of
             Inl e \<Rightarrow> out = Returned (Some e) \<and>
               tr' = tr @ w @ [DOM_getContentQuads el (Inl e)]
           | Inr s \<Rightarrow>
               if interval \<le>s 0
               then out = Panicked ''non-positive interval for NewTicker'' \<and>
                    tr' = tr @ w @ [DOM_getContentQuads el (Inr s)]
               else (\<exists>rounds r ss fin. out = Returned r \<and>
                      tr' = tr @ w @ [DOM_getContentQuads el (Inr s), Ticker_new interval]
                              @ rounds @ [Ticker_stop] \<and>
                      sampling R el interval s
                        (tr @ w @ [DOM_getContentQuads el (Inr s), Ticker_new interval])
                        rounds r \<and>
                      rounds = ticked_samples el interval ss @ fin \<and>
                      (case r of
                         None \<Rightarrow> fin = [] \<and> ss \<noteq> [] \<and>
                           list_all (\<lambda>(a, b). \<not> identical R a b) (butlast (consecutive s ss)) \<and>
                           (case last (consecutive s ss) of (a, b) \<Rightarrow> identical R a b)
                       | Some e \<Rightarrow>
                           list_all (\<lambda>(a, b). \<not> identical R a b) (consecutive s ss) \<and>
                           (fin = [Select_tick interval (Some e)] \<or>
                            fin = [Select_tick interval None,
                                   DOM_getContentQuads el (Inl e)]))))))"
  (is "?L \<longleftrightarrow> ?R")
proof
  assume ?L
  then obtain fuel where run: "WaitStable fuel R el interval tr = Some (out, tr')" ..
  then obtain r1 tr1 where vis: "WaitVisible fuel R el tr = Some (r1, tr1)"
    by (cases "WaitVisible fuel R el tr") (auto simp: WaitStable_def)
  from WaitVisible_sound[OF vis] obtain w where w: "tr1 = tr @ w" "waiting R el tr w r1"
    by blast
  note wform = waiting_form[OF w(2)]
  have "case r1 of
         Some e \<Rightarrow> out = Returned (Some e) \<and> tr' = tr @ w
       | None \<Rightarrow>
          (case quads_of R (tr @ w) el of
             Inl e \<Rightarrow> out = Returned (Some e) \<and>
               tr' = tr @ w @ [DOM_getContentQuads el (Inl e)]
           | Inr s \<Rightarrow>
               if interval \<le>s 0
               then out = Panicked ''non-positive interval for NewTicker'' \<and>
                    tr' = tr @ w @ [DOM_getContentQuads el (Inr s)]
               else (\<exists>rounds r ss fin. out = Returned r \<and>
                      tr' = tr @ w @ [DOM_getContentQuads el (Inr s), Ticker_new interval]
                              @ rounds @ [Ticker_stop] \<and>
                      sampling R el interval s
                        (tr @ w @ [DOM_getContentQuads el (Inr s), Ticker_new interval])
                        rounds r \<and>
                      rounds = ticked_samples el interval ss @ fin \<and>
                      (case r of
                         None \<Rightarrow> fin = [] \<and> ss \<noteq> [] \<and>
                           list_all (\<lambda>(a, b). \<not> identical R a b) (butlast (consecutive s ss)) \<and>
                           (case last (consecutive s ss) of (a, b) \<Rightarrow> identical R a b)
                       | Some e \<Rightarrow>
                           list_all (\<lambda>(a, b). \<not> identical R a b) (consecutive s ss) \<and>
                           (fin = [Select_tick interval (Some e)] \<or>
                            fin = [Select_tick interval None,
                                   DOM_getContentQuads el (Inl e)]))))"
  proof (cases r1)
    case (Some e)
    with run vis w(1) show ?thesis by (auto simp: WaitStable_def)
  next
    case None
    show ?thesis
    proof (cases "quads_of R (tr @ w) el")
      case (Inl e)
      with run vis None w(1) show ?thesis by (auto simp: WaitStable_def Shape_eq)
    next
      case (Inr s)
      show ?thesis
      proof (cases "interval \<le>s 0")
        case True
        with run vis None Inr w(1) show ?thesis by (auto simp: WaitStable_def Shape_eq)
      next
        case False
        let ?base = "tr @ w @ [DOM_getContentQuads el (Inr s), Ticker_new interval]"
        from run vis None Inr False w(1) obtain r tr3 where
          loop: "stable_loop fuel R el interval s ?base = Some (r, tr3)"
          and out: "out = Returned r" "tr' = tr3 @ [Ticker_stop]"
          by (auto simp: WaitStable_def Shape_eq split: option.splits)
        from stable_loop_sound[OF loop] obtain rounds where
          rounds: "tr3 = ?base @ rounds" "sampling R el interval s ?base rounds r" by blast
        from sampling_form[OF rounds(2)] obtain ss fin where
          form: "rounds = ticked_samples el interval ss @ fin"
            "case r of
               None \<Rightarrow> fin = [] \<and> ss \<noteq> [] \<and>
                 list_all (\<lambda>(a, b). \<not> identical R a b) (butlast (consecutive s ss)) \<and>
                 (case last (consecutive s ss) of (a, b) \<Rightarrow> identical R a b)
             | Some e \<Rightarrow>
                 list_all (\<lambda>(a, b). \<not> identical R a b) (consecutive s ss) \<and>
                 (fin = [Select_tick interval (Some e)] \<or>
                  fin = [Select_tick interval None, DOM_getContentQuads el (Inl e)])"
          by blast
        have tr': "tr' = ?base @ rounds @ [Ticker_stop]"
          using out(2) rounds(1) by simp
        have "\<exists>rounds r ss fin. out = Returned r \<and>
                      tr' = tr @ w @ [DOM_getContentQuads el (Inr s), Ticker_new interval]
                              @ rounds @ [Ticker_stop] \<and>
                      sampling R el interval s
                        (tr @ w @ [DOM_getContentQuads el (Inr s), Ticker_new interval])
                        rounds r \<and>
                      rounds = ticked_samples el interval ss @ fin \<and>
                      (case r of
                         None \<Rightarrow> fin = [] \<and> ss \<noteq> [] \<and>
                           list_all (\<lambda>(a, b). \<not> identical R a b) (butlast (consecutive s ss)) \<and>
                           (case last (consecutive s ss) of (a, b) \<Rightarrow> identical R a b)
                       | Some e \<Rightarrow>
                           list_all (\<lambda>(a, b). \<not> identical R a b) (consecutive s ss) \<and>
                           (fin = [Select_tick interval (Some e)] \<or>
                            fin = [Select_tick interval None,
                                   DOM_getContentQuads el (Inl e)]))"
          using out(1) tr' rounds(2) form
          by (intro exI[of _ rounds] exI[of _ r] exI[of _ ss] exI[of _ fin] conjI) simp_all
        with None Inr False show ?thesis by simp
      qed
    qed
  qed
  with w(2) wform show ?R
    by (intro exI[of _ w] exI[of _ r1] conjI)
next
  assume ?R
  then obtain w r1 where wt: "waiting R el tr w r1"
    and rest: "case r1 of
         Some e \<Rightarrow> out = Returned (Some e) \<and> tr' = tr @ w
       | None \<Rightarrow>
          (case quads_of R (tr @ w) el of
             Inl e \<Rightarrow> out = Returned (Some e) \<and>
               tr' = tr @ w @ [DOM_getContentQuads el (Inl e)]
           | Inr s \<Rightarrow>
               if interval \<le>s 0
               then out = Panicked ''non-positive interval for NewTicker'' \<and>
                    tr' = tr @ w @ [DOM_getContentQuads el (Inr s)]
               else (\<exists>rounds r ss fin. out = Returned r \<and>
                      tr' = tr @ w @ [DOM_getContentQuads el (Inr s), Ticker_new interval]
                              @ rounds @ [Ticker_stop] \<and>
                      sampling R el interval s
                        (tr @ w @ [DOM_getContentQuads el (Inr s), Ticker_new interval])
                        rounds r \<and>
                      rounds = ticked_samples el interval ss @ fin \<and>
                      (case r of
                         None \<Rightarrow> fin = [] \<and> ss \<noteq> [] \<and>
                           list_all (\<lambda>(a, b). \<not> identical R a b) (butlast (consecutive s ss)) \<and>
                           (case last (consecutive s ss) of (a, b) \<Rightarrow> identical R a b)
                       | Some e \<Rightarrow>
                           list_all (\<lambda>(a, b). \<not> identical R a b) (consecutive s ss) \<and>
                           (fin = [Select_tick interval (Some e)] \<or>
                            fin = [Select_tick interval None,
                                   DOM_getContentQuads el (Inl e)]))))"
    by blast
  from waiting_returns[OF wt] obtain fuel1 where
    vis: "WaitVisible fuel1 R el tr = Some (r1, tr @ w)" ..
  show ?L
  proof (cases r1)
    case (Some e)
    with vis rest show ?thesis
      by (intro exI[of _ fuel1]) (simp add: WaitStable_def)
  next
    case None
    show ?thesis
    proof (cases "quads_of R (tr @ w) el")
      case (Inl e)
      with vis rest None show ?thesis
        by (intro exI[of _ fuel1]) (simp add: WaitStable_def Shape_eq)
    next
      case (Inr s)
      show ?thesis
      proof (cases "interval \<le>s 0")
        case True
        with vis rest None Inr show ?thesis
          by (intro exI[of _ fuel1]) (simp add: WaitStable_def Shape_eq)
      next
        case False
        let ?base = "tr @ w @ [DOM_getContentQuads el (Inr s), Ticker_new interval]"
        from rest None Inr False obtain rounds r where
          out: "out = Returned r" "tr' = ?base @ rounds @ [Ticker_stop]"
          and smp: "sampling R el interval s ?base rounds r"
          by auto
        from sampling_returns[OF smp] obtain n where
          "stable_loop n R el interval s ?base = Some (r, ?base @ rounds)" ..
        from stable_loop_mono[OF this, of fuel1]
        have loop: "stable_loop (fuel1 + n) R el interval s ?base = Some (r, ?base @ rounds)"
          by (simp add: add.commute)
        from WaitVisible_mono[OF vis, of n]
        have "WaitVisible (fuel1 + n) R el tr = Some (r1, tr @ w)" .
        with loop out None Inr False show ?thesis
          by (intro exI[of _ "fuel1 + n"]) (simp add: WaitStable_def Shape_eq)
      qed
    qed
  qed
qed

text \<open>
  A button that is hidden at first and visible after one sleep, whose shape is \<open>nil\<close> at
  the first sample and an empty slice from then on: \<open>nil\<close> and the empty slice are not
  identical, so the second sample starts another round, and the third, identical to the
  second, ends the wait with success. Between the samples there is one tick of the
  ticker of period 100 each. When the scope is cancelled at the second tick instead, the
  wait returns the cancellation error.
\<close>

theorem WaitStable_samples_witness:
  "waiting
     (demo_remote (\<lambda>tr. if length tr < 4 then NilSlice else Slice []) overlay True
        (\<lambda>tr. 2 \<le> length tr) (\<lambda>tr. None)) submit []
     [Runtime_evaluate main_page ''submit'' (Helper ''Visible'') [] (Inr (False, 0, 0)),
      Sleeper None,
      Runtime_evaluate main_page ''submit'' (Helper ''Visible'') [] (Inr (True, 0, 0))] None \<and>
   \<not> (100 :: int64) \<le>s 0 \<and>
   sampling
     (demo_remote (\<lambda>tr. if length tr < 4 then NilSlice else Slice []) overlay True
        (\<lambda>tr. 2 \<le> length tr) (\<lambda>tr. None)) submit 100 NilSlice
     [Runtime_evaluate main_page ''submit'' (Helper ''Visible'') [] (Inr (False, 0, 0)),
      Sleeper None,
      Runtime_evaluate main_page ''submit'' (Helper ''Visible'') [] (Inr (True, 0, 0)),
      DOM_getContentQuads submit (Inr NilSlice), Ticker_new 100]
     [Select_tick 100 None, DOM_getContentQuads submit (Inr (Slice [])),
      Select_tick 100 None, DOM_getContentQuads submit (Inr (Slice []))] None \<and>
   WaitStable 3
     (demo_remote (\<lambda>tr. if length tr < 4 then NilSlice else Slice []) overlay True
        (\<lambda>tr. 2 \<le> length tr) (\<lambda>tr. None)) submit 100 [] =
     Some (Returned None,
       [Runtime_evaluate main_page ''submit'' (Helper ''Visible'') [] (Inr (False, 0, 0)),
        Sleeper None,
        Runtime_evaluate main_page ''submit'' (Helper ''Visible'') [] (Inr (True, 0, 0)),
        DOM_getContentQuads submit (Inr NilSlice), Ticker_new 100,
        Select_tick 100 None, DOM_getContentQuads submit (Inr (Slice [])),
        Select_tick 100 None, DOM_getContentQuads submit (Inr (Slice [])), Ticker_stop]) \<and>
   (\<exists>fuel. WaitStable fuel
     (demo_remote (\<lambda>tr. if length tr < 4 then NilSlice else Slice []) overlay True
        (\<lambda>tr. 2 \<le> length tr) (\<lambda>tr. None)) submit 100 [] =
     Some (Returned None,
       [Runtime_evaluate main_page ''submit'' (Helper ''Visible'') [] (Inr (False, 0, 0)),
        Sleeper None,
        Runtime_evaluate main_page ''submit'' (Helper ''Visible'') [] (Inr (True, 0, 0)),
        DOM_getContentQuads submit (Inr NilSlice), Ticker_new 100,
        Select_tick 100 None, DOM_getContentQuads submit (Inr (Slice [])),
        Select_tick 100 None, DOM_getContentQuads submit (Inr (Slice [])), Ticker_stop])) \<and>
   (\<exists>fuel. WaitStable fuel
     (demo_remote (\<lambda>tr. if length tr < 4 then NilSlice else Slice []) overlay True
        (\<lambda>tr. 2 \<le> length tr) (\<lambda>tr. if 7 \<le> length tr then Some Canceled else None))
     submit 100 [] =
     Some (Returned (Some Canceled),
       [Runtime_evaluate main_page ''submit'' (Helper ''Visible'') [] (Inr (False, 0, 0)),
        Sleeper None,
        Runtime_evaluate main_page ''submit'' (Helper ''Visible'') [] (Inr (True, 0, 0)),
        DOM_getContentQuads submit (Inr NilSlice), Ticker_new 100,
        Select_tick 100 None, DOM_getContentQuads submit (Inr (Slice [])),
        Select_tick 100 (Some Canceled), Ticker_stop]))"
proof -
  let ?shape = "\<lambda>tr :: demo_event list.
      if length tr < 4 then NilSlice else (Slice [] :: (int64 \<times> int64) slice)"
  let ?R = "demo_remote ?shape overlay True (\<lambda>tr. 2 \<le> length tr) (\<lambda>tr. None)"
  let ?C = "demo_remote ?shape overlay True (\<lambda>tr. 2 \<le> length tr)
      (\<lambda>tr. if 7 \<le> length tr then Some Canceled else None)"
  let ?hid = "Runtime_evaluate main_page ''submit'' (Helper ''Visible'') [] (Inr (False, 0, 0))
      :: demo_event"
  let ?vis = "Runtime_evaluate main_page ''submit'' (Helper ''Visible'') [] (Inr (True, 0, 0))
      :: demo_event"
  let ?w = "[?hid, Sleeper None, ?vis]"
  let ?base = "[] @ ?w @ [DOM_getContentQuads submit (Inr NilSlice), Ticker_new 100]"
  let ?rounds = "[Select_tick 100 None, DOM_getContentQuads submit (Inr (Slice [])),
      Select_tick 100 None, DOM_getContentQuads submit (Inr (Slice []))] :: demo_event list"
  let ?roundsC = "[Select_tick 100 None, DOM_getContentQuads submit (Inr (Slice [])),
      Select_tick 100 (Some Canceled)] :: demo_event list"
  have el: "page submit = main_page" "ObjectID submit = ''submit''"
    by (simp_all add: submit_def)
  have wt: "waiting ?R submit [] ?w None"
    by (rule waiting.hidden[where el = submit and v = "(False, 0, 0)", unfolded el],
        simp add: demo_remote_def, simp add: demo_remote_def, simp add: demo_remote_def,
        rule waiting.visible[where el = submit and v = "(True, 0, 0)", unfolded el],
        simp add: demo_remote_def, simp add: demo_remote_def)
  have wtC: "waiting ?C submit [] ?w None"
    by (rule waiting.hidden[where el = submit and v = "(False, 0, 0)", unfolded el],
        simp add: demo_remote_def, simp add: demo_remote_def, simp add: demo_remote_def,
        rule waiting.visible[where el = submit and v = "(True, 0, 0)", unfolded el],
        simp add: demo_remote_def, simp add: demo_remote_def)
  have wform: "?w = slept_evaluations submit [(False, 0 :: int64, 0 :: int64)] @ [?vis]"
    by (simp add: slept_evaluations_def el)
  have vform: "\<exists>vs ending. ?w = slept_evaluations submit vs @ ending \<and>
      list_all (\<lambda>v. \<not> Bool ?R v) vs \<and>
      (\<exists>v. Bool ?R v \<and>
         ending = [Runtime_evaluate (page submit) (ObjectID submit) (Helper ''Visible'') []
                     (Inr v)])"
    by (rule exI[of _ "[(False, 0, 0)]"], rule exI[of _ "[?vis]"], intro conjI, rule wform,
        simp add: demo_remote_def, rule exI[of _ "(True, 0, 0)"], simp add: demo_remote_def el)
  have vformC: "\<exists>vs ending. ?w = slept_evaluations submit vs @ ending \<and>
      list_all (\<lambda>v. \<not> Bool ?C v) vs \<and>
      (\<exists>v. Bool ?C v \<and>
         ending = [Runtime_evaluate (page submit) (ObjectID submit) (Helper ''Visible'') []
                     (Inr v)])"
    by (rule exI[of _ "[(False, 0, 0)]"], rule exI[of _ "[?vis]"], intro conjI, rule wform,
        simp add: demo_remote_def, rule exI[of _ "(True, 0, 0)"], simp add: demo_remote_def el)
  have pos: "\<not> (100 :: int64) \<le>s 0"
    by (simp add: word_sle_eq)
  have first: "quads_of ?R ([] @ ?w) submit = Inr NilSlice"
    "quads_of ?C ([] @ ?w) submit = Inr NilSlice"
    by (simp_all add: demo_remote_def)
  have smp: "sampling ?R submit 100 NilSlice ?base ?rounds None"
    by (rule sampling.moving, simp add: demo_remote_def, simp add: demo_remote_def, simp,
        rule sampling.settled, simp add: demo_remote_def, simp add: demo_remote_def,
        simp add: demo_remote_def)
  have smpC: "sampling ?C submit 100 NilSlice ?base ?roundsC (Some Canceled)"
    by (rule sampling.moving, simp add: demo_remote_def, simp add: demo_remote_def, simp,
        rule sampling.cancelled, simp add: demo_remote_def)
  have rform: "?rounds = ticked_samples submit 100 [Slice [], Slice []] @ []"
    "?roundsC = ticked_samples submit 100 [Slice []] @ [Select_tick 100 (Some Canceled)]"
    by (simp_all add: ticked_samples_def)
  have run: "WaitStable 3 ?R submit 100 [] = Some (Returned None, ?base @ ?rounds @ [Ticker_stop])"
    by code_simp
  have ex: "\<exists>fuel. WaitStable fuel ?R submit 100 [] =
      Some (Returned None, ?base @ ?rounds @ [Ticker_stop])"
    unfolding WaitStable_samples
    apply (rule exI[of _ ?w], rule exI[of _ None], intro conjI)
      apply (rule wt)
     apply (simp only: option.case, rule vform)
    apply (simp only: option.case first sum.case pos if_False)
    apply (rule exI[of _ ?rounds], rule exI[of _ None],
        rule exI[of _ "[Slice [], Slice []]"], rule exI[of _ "[]"])
    apply (intro conjI refl smp rform(1))
    apply (simp_all add: consecutive_def demo_remote_def)
    done
  have exC: "\<exists>fuel. WaitStable fuel ?C submit 100 [] =
      Some (Returned (Some Canceled), ?base @ ?roundsC @ [Ticker_stop])"
    unfolding WaitStable_samples
    apply (rule exI[of _ ?w], rule exI[of _ None], intro conjI)
      apply (rule wtC)
     apply (simp only: option.case, rule vformC)
    apply (simp only: option.case first sum.case pos if_False)
    apply (rule exI[of _ ?roundsC], rule exI[of _ "Some Canceled"],
        rule exI[of _ "[Slice []]"], rule exI[of _ "[Select_tick 100 (Some Canceled)]"])
    apply (intro conjI refl smpC rform(2))
    apply (simp_all add: consecutive_def demo_remote_def)
    done
  from wt pos smp run ex exC show ?thesis by simp
qed


end
